theory Spec2Isabelle
  imports Complex_Main
begin

section \<open>The customer-message queue consumer of the e-commerce support simulator\<close>

text \<open>
  A shallow embedding of
  \<^verbatim>\<open>examples/ecommerce-support-simulator/lambda/customerMessage/index.ts\<close>.
  The module keeps three module-level variables (\<^verbatim>\<open>apiKey\<close>, \<^verbatim>\<open>orchestrator\<close>,
  \<^verbatim>\<open>orchestratorPromise\<close>) and talks to four outside services: the parameter store,
  the orchestrator library, the language runtime's JSON parser and the delivery queue.
  The module-level variables are fields of a state record that every function takes
  and returns. The outside services are the fields of an environment record: each
  asynchronous call is a function of the outside world's state that answers with a
  value or a thrown error and the world's next state. Every call to a service and
  every console line is appended to a trace, so that theorems can speak of what the
  code did and in which order.
\<close>

subsection \<open>JavaScript values and thrown errors\<close>

datatype js_error = Error string | TypeError string | SyntaxError string

text \<open>
  What \<^verbatim>\<open>JSON.parse\<close> can return. A parsed number is a finite double, hence a real
  number; the handler never computes with it. An object is its list of own
  properties.
\<close>

datatype jsval =
    JUndefined
  | JNull
  | JBool bool
  | JNum real
  | JStr string
  | JArr "jsval list"
  | JObj "(string \<times> jsval) list"

text \<open>
  \<^verbatim>\<open>v.k\<close> for a property name \<^verbatim>\<open>k\<close> that no built-in prototype defines (the handler
  reads \<^verbatim>\<open>sessionId\<close> and \<^verbatim>\<open>message\<close>): reading a property of \<^verbatim>\<open>null\<close> or
  \<^verbatim>\<open>undefined\<close> throws a TypeError, an object answers with its own property or
  \<^verbatim>\<open>undefined\<close>, every other value answers \<^verbatim>\<open>undefined\<close>.
\<close>

fun property_of :: "jsval \<Rightarrow> string \<Rightarrow> js_error + jsval" where
  "property_of JUndefined k =
     Inl (TypeError (''Cannot read properties of undefined (reading '' @ k @ '')''))"
| "property_of JNull k =
     Inl (TypeError (''Cannot read properties of null (reading '' @ k @ '')''))"
| "property_of (JObj kvs) k = Inr (case map_of kvs k of None \<Rightarrow> JUndefined | Some v \<Rightarrow> v)"
| "property_of v k = Inr JUndefined"

text \<open>
  A template literal \<^verbatim>\<open>`${v}`\<close> converts \<^verbatim>\<open>v\<close> to a string. For a parsed JSON value
  the conversion throws exactly when it meets an object with an own property
  \<^verbatim>\<open>toString\<close>: that property is never callable, and the inherited \<^verbatim>\<open>valueOf\<close>
  answers the object itself, so no primitive is found. An array joins the
  conversions of its elements (\<^verbatim>\<open>null\<close> converts to the empty string there).
\<close>

fun unprintable :: "jsval \<Rightarrow> bool" where
  "unprintable (JObj kvs) = (map_of kvs ''toString'' \<noteq> None)"
| "unprintable (JArr vs) = list_ex unprintable vs"
| "unprintable v = False"

text \<open>\<^verbatim>\<open>!v\<close> for a value of type \<^verbatim>\<open>string | null | undefined\<close>.\<close>

definition falsy :: "string option \<Rightarrow> bool" where
  "falsy v = (v = None \<or> v = Some [])"

text \<open>The decimal digits of a length, as \<^verbatim>\<open>`${event.Records.length}`\<close> prints it.\<close>

function string_of_nat :: "nat \<Rightarrow> string" where
  "string_of_nat n =
     (if n < 10 then [''0123456789'' ! n]
      else string_of_nat (n div 10) @ [''0123456789'' ! (n mod 10)])"
  by pat_completeness auto
termination
  by (relation "measure (\<lambda>n. n)") auto

declare string_of_nat.simps [simp del]

subsection \<open>The services' data\<close>

record get_parameter_command =
  Name :: string
  WithDecryption :: bool

record parameter =
  Value :: "string option"

record get_parameter_result =
  Parameter :: "parameter option"

record OrchestratorConfig =
  LOG_AGENT_CHAT :: bool
  LOG_CLASSIFIER_CHAT :: bool
  LOG_CLASSIFIER_RAW_OUTPUT :: bool
  LOG_CLASSIFIER_OUTPUT :: bool
  LOG_EXECUTION_TIMES :: bool
  MAX_MESSAGE_PAIRS_PER_AGENT :: nat
  USE_DEFAULT_AGENT_IF_NONE_IDENTIFIED :: bool

datatype classifier = AnthropicClassifier "string option"

text \<open>
  The chat storage is built from four environment variables (a variable that is
  not set reads as \<^verbatim>\<open>undefined\<close>). The first three are passed as they are read;
  the last one is passed through the runtime's \<^verbatim>\<open>Number\<close> conversion, which is kept
  as the application of \<^verbatim>\<open>Number\<close> to the variable as read.
\<close>

datatype js_number = Number "string option"

datatype chat_storage =
  DynamoDbChatStorage "string option" "string option" "string option" js_number

datatype logger = SQSLogger "string option" string

record OrchestratorOptions =
  classifier :: classifier
  storage :: chat_storage
  config :: OrchestratorConfig
  logger :: logger

record HumanAgentOptions =
  name :: string
  description :: string
  saveChat :: bool
  queueUrl :: "string option"

datatype agent =
    orderManagementAgent
  | productInfoAgent
  | HumanAgent HumanAgentOptions

record MultiAgentOrchestrator =
  options :: OrchestratorOptions
  agents :: "agent list"

text \<open>
  Modelled from the spec: the type of a routing result is declared by the
  orchestrator library, which is not among the sources. The spec's data model gives
  it as \<^verbatim>\<open>{ output: string, selectedAgent: string, success: boolean }\<close>; the handler
  reads \<^verbatim>\<open>output\<close> only.
\<close>

record RoutingResult =
  "output" :: string
  selectedAgent :: string
  success :: bool

text \<open>
  The object the handler publishes. The body of the queue command is the JSON text
  of this object; the object stands for its text here.
\<close>

record customer_message =
  destination :: string
  message :: string

record send_message_command =
  QueueUrl :: string
  MessageBody :: customer_message

record send_message_result =
  MessageId :: "string option"

record sqs_record =
  messageId :: string
  body :: string

record sqs_event =
  Records :: "sqs_record list"

text \<open>The handler's result; its field is \<^verbatim>\<open>message\<close> in the source.\<close>

record summary =
  summary_message :: string

subsection \<open>The trace\<close>

datatype console_line =
    ReceivedEvent sqs_event
  | CallingOrchestrator jsval jsval
  | OrchestratorResponse RoutingResult
  | MessageSent "string option"
  | ErrorRetrievingApiKey js_error
  | ErrorProcessingRecord js_error

datatype event =
    ConsoleLog console_line
  | ConsoleError console_line
  | SsmSend get_parameter_command
  | NewOrchestrator OrchestratorOptions
  | AddAgent agent
  | RouteRequest jsval jsval jsval
  | SqsSend send_message_command

subsection \<open>The environment and the module's state\<close>

record 'w env =
  QUEUE_URL :: "string option"
  HISTORY_TABLE_NAME :: "string option"
  AWS_REGION :: "string option"
  HISTORY_TABLE_TTL_KEY_NAME :: "string option"
  HISTORY_TABLE_TTL_DURATION :: "string option"
  JSON_parse :: "string \<Rightarrow> js_error + jsval"
  ssm_send :: "get_parameter_command \<Rightarrow> 'w \<Rightarrow> (js_error + get_parameter_result) \<times> 'w"
  constructor_throws :: "OrchestratorOptions \<Rightarrow> js_error option"
  addAgent_throws :: "MultiAgentOrchestrator \<Rightarrow> agent \<Rightarrow> js_error option"
  routeRequest ::
    "MultiAgentOrchestrator \<Rightarrow> jsval \<Rightarrow> jsval \<Rightarrow> jsval \<Rightarrow> 'w \<Rightarrow> (js_error + RoutingResult) \<times> 'w"
  sqs_send :: "send_message_command \<Rightarrow> 'w \<Rightarrow> (js_error + send_message_result) \<times> 'w"

text \<open>
  \<^verbatim>\<open>orchestratorPromise\<close> is \<^verbatim>\<open>null\<close> or a promise. Handler invocations are run one
  after the other here, so between two invocations a promise is settled: it holds
  the error it was rejected with or the orchestrator it was fulfilled with.
\<close>

record 'w state =
  apiKey :: "string option"
  orchestrator :: "MultiAgentOrchestrator option"
  orchestratorPromise :: "(js_error + MultiAgentOrchestrator) option"
  world :: 'w
  trace :: "event list"

definition emit :: "event \<Rightarrow> 'w state \<Rightarrow> 'w state" where
  "emit e s = s\<lparr>trace := trace s @ [e]\<rparr>"

definition console_log :: "console_line \<Rightarrow> 'w state \<Rightarrow> 'w state" where
  "console_log l s = emit (ConsoleLog l) s"

definition console_error :: "console_line \<Rightarrow> 'w state \<Rightarrow> 'w state" where
  "console_error l s = emit (ConsoleError l) s"

text \<open>
  Loading the module: the three variables start as \<^verbatim>\<open>null\<close>, and the module
  refuses to load without \<^verbatim>\<open>QUEUE_URL\<close>.
\<close>

definition module_init :: "'w env \<Rightarrow> 'w \<Rightarrow> js_error + 'w state" where
  "module_init env w =
     (if falsy (QUEUE_URL env) then Inl (Error ''QUEUE_URL not set'')
      else Inr \<lparr>apiKey = None, orchestrator = None, orchestratorPromise = None,
                world = w, trace = []\<rparr>)"

definition module_storage :: "'w env \<Rightarrow> chat_storage" where
  "module_storage env =
     DynamoDbChatStorage (HISTORY_TABLE_NAME env) (AWS_REGION env)
       (HISTORY_TABLE_TTL_KEY_NAME env) (Number (HISTORY_TABLE_TTL_DURATION env))"

subsection \<open>getApiKeyFromSSM\<close>

definition getParameterCommand :: get_parameter_command where
  "getParameterCommand = \<lparr>Name = ''/anthropic/apiKey'', WithDecryption = True\<rparr>"

text \<open>
  The \<^verbatim>\<open>try\<close> block after its \<^verbatim>\<open>await\<close>: a failed send throws what the client
  threw; otherwise \<^verbatim>\<open>result.Parameter?.Value\<close> is read and a falsy value throws.
\<close>

definition retrieved_key :: "js_error + get_parameter_result \<Rightarrow> js_error + string" where
  "retrieved_key answer =
     (case answer of
        Inl e \<Rightarrow> Inl e
      | Inr result \<Rightarrow>
          (let retrievedApiKey =
                 (case Parameter result of None \<Rightarrow> None | Some p \<Rightarrow> Value p)
           in if falsy retrievedApiKey
              then Inl (Error ''API key not found in SSM'')
              else Inr (the retrievedApiKey)))"

text \<open>
  What the function does once the parameter store has answered; the \<^verbatim>\<open>catch\<close>
  block logs what was thrown and throws an error of its own.
\<close>

definition key_settled ::
  "js_error + get_parameter_result \<Rightarrow> 'w state \<Rightarrow> (js_error + string) \<times> 'w state" where
  "key_settled answer s =
     (case retrieved_key answer of
        Inr k \<Rightarrow> (Inr k, s)
      | Inl e \<Rightarrow>
          (Inl (Error ''Failed to retrieve API key''),
           console_error (ErrorRetrievingApiKey e) s))"

definition getApiKeyFromSSM :: "'w env \<Rightarrow> 'w state \<Rightarrow> (js_error + string) \<times> 'w state" where
  "getApiKeyFromSSM env s =
     (let s1 = emit (SsmSend getParameterCommand) s
      in case ssm_send env getParameterCommand (world s1) of
           (answer, w) \<Rightarrow> key_settled answer (s1\<lparr>world := w\<rparr>))"

subsection \<open>initializeOrchestrator\<close>

definition orchestrator_options :: "'w env \<Rightarrow> string option \<Rightarrow> OrchestratorOptions" where
  "orchestrator_options env key =
     \<lparr>classifier = AnthropicClassifier key,
      storage = module_storage env,
      config =
        \<lparr>LOG_AGENT_CHAT = True,
         LOG_CLASSIFIER_CHAT = True,
         LOG_CLASSIFIER_RAW_OUTPUT = True,
         LOG_CLASSIFIER_OUTPUT = True,
         LOG_EXECUTION_TIMES = True,
         MAX_MESSAGE_PAIRS_PER_AGENT = 10,
         USE_DEFAULT_AGENT_IF_NONE_IDENTIFIED = False\<rparr>,
      logger = SQSLogger (QUEUE_URL env) ''log''\<rparr>"

definition humanAgent :: "'w env \<Rightarrow> agent" where
  "humanAgent env =
     HumanAgent
       \<lparr>name = ''Human Agent'',
        description =
          ''Handles complex inquiries, complaints, or sensitive issues requiring human expertise.'',
        saveChat = False,
        queueUrl = QUEUE_URL env\<rparr>"

text \<open>
  \<^verbatim>\<open>orchestrator.addAgent(a)\<close>: the library's method throws or registers the agent.
  The orchestrator is one mutable object that the module-level variable refers to;
  the object is threaded through the calls and the variable is updated with it.
\<close>

definition addAgent ::
  "'w env \<Rightarrow> agent \<Rightarrow> MultiAgentOrchestrator \<Rightarrow> 'w state \<Rightarrow>
     (js_error + MultiAgentOrchestrator) \<times> 'w state" where
  "addAgent env a orch s =
     (let s1 = emit (AddAgent a) s
      in case addAgent_throws env orch a of
           Some e \<Rightarrow> (Inl e, s1)
         | None \<Rightarrow>
             (let orch' = orch\<lparr>agents := agents orch @ [a]\<rparr>
              in (Inr orch', s1\<lparr>orchestrator := Some orch'\<rparr>)))"

text \<open>The body of \<^verbatim>\<open>if (!orchestrator) { ... }\<close>.\<close>

definition construct_orchestrator ::
  "'w env \<Rightarrow> 'w state \<Rightarrow> (js_error + MultiAgentOrchestrator) \<times> 'w state" where
  "construct_orchestrator env s =
     (let opts = orchestrator_options env (apiKey s);
          s1 = emit (NewOrchestrator opts) s
      in case constructor_throws env opts of
           Some e \<Rightarrow> (Inl e, s1)
         | None \<Rightarrow>
             (let orch = \<lparr>options = opts, agents = []\<rparr>;
                  s2 = s1\<lparr>orchestrator := Some orch\<rparr>
              in case addAgent env orderManagementAgent orch s2 of
                   (Inl e, s3) \<Rightarrow> (Inl e, s3)
                 | (Inr orch3, s3) \<Rightarrow>
                     (case addAgent env productInfoAgent orch3 s3 of
                        (Inl e, s4) \<Rightarrow> (Inl e, s4)
                      | (Inr orch4, s4) \<Rightarrow> addAgent env (humanAgent env) orch4 s4)))"

text \<open>
  The function from \<^verbatim>\<open>if (!orchestrator)\<close> to its \<^verbatim>\<open>return\<close>.
\<close>

definition ensure_orchestrator ::
  "'w env \<Rightarrow> 'w state \<Rightarrow> (js_error + MultiAgentOrchestrator) \<times> 'w state" where
  "ensure_orchestrator env s =
     (case orchestrator s of
        Some orch \<Rightarrow> (Inr orch, s)
      | None \<Rightarrow> construct_orchestrator env s)"

text \<open>
  What the function does once \<^verbatim>\<open>getApiKeyFromSSM\<close> has settled: a rejection is
  thrown on, a key is stored in \<^verbatim>\<open>apiKey\<close>.
\<close>

definition key_awaited ::
  "'w env \<Rightarrow> js_error + string \<Rightarrow> 'w state \<Rightarrow>
     (js_error + MultiAgentOrchestrator) \<times> 'w state" where
  "key_awaited env r s =
     (case r of
        Inl e \<Rightarrow> (Inl e, s)
      | Inr k \<Rightarrow> ensure_orchestrator env (s\<lparr>apiKey := Some k\<rparr>))"

definition initializeOrchestrator ::
  "'w env \<Rightarrow> 'w state \<Rightarrow> (js_error + MultiAgentOrchestrator) \<times> 'w state" where
  "initializeOrchestrator env s =
     (if falsy (apiKey s)
      then (case getApiKeyFromSSM env s of (r, s1) \<Rightarrow> key_awaited env r s1)
      else ensure_orchestrator env s)"

subsection \<open>The handler\<close>

text \<open>
  \<^verbatim>\<open>if (!orchestratorPromise) orchestratorPromise = initializeOrchestrator();\<close>
  followed by \<^verbatim>\<open>await orchestratorPromise\<close>: a promise that is already there is
  awaited as it is, fulfilled or rejected; otherwise the initialization runs and
  its promise is stored, whatever its outcome.
\<close>

definition await_orchestrator ::
  "'w env \<Rightarrow> 'w state \<Rightarrow> (js_error + MultiAgentOrchestrator) \<times> 'w state" where
  "await_orchestrator env s =
     (case orchestratorPromise s of
        Some r \<Rightarrow> (r, s)
      | None \<Rightarrow>
          (case initializeOrchestrator env s of
             (r, s') \<Rightarrow> (r, s'\<lparr>orchestratorPromise := Some r\<rparr>)))"

text \<open>
  The start of the \<^verbatim>\<open>try\<close> block, up to the arguments of the log line: parse the
  body, read \<^verbatim>\<open>sessionId\<close> and \<^verbatim>\<open>message\<close>, convert both for the template literal.
  The result is the pair \<^verbatim>\<open>(body.message, sessionId)\<close>.
\<close>

definition parse_record :: "'w env \<Rightarrow> sqs_record \<Rightarrow> js_error + (jsval \<times> jsval)" where
  "parse_record env r =
     (case JSON_parse env (body r) of
        Inl e \<Rightarrow> Inl e
      | Inr b \<Rightarrow>
          (case property_of b ''sessionId'' of
             Inl e \<Rightarrow> Inl e
           | Inr sessionId \<Rightarrow>
               if unprintable sessionId
               then Inl (TypeError ''Cannot convert object to primitive value'')
               else (case property_of b ''message'' of
                       Inl e \<Rightarrow> Inl e
                     | Inr msg \<Rightarrow>
                         if unprintable msg
                         then Inl (TypeError ''Cannot convert object to primitive value'')
                         else Inr (msg, sessionId))))"

text \<open>
  The \<^verbatim>\<open>try\<close> block of the loop, for one record, in the three stretches that its
  two \<^verbatim>\<open>await\<close>s delimit: up to the call of \<^verbatim>\<open>routeRequest\<close>, from the routing
  result to the call of \<^verbatim>\<open>sqs.send\<close>, and after the queue's answer.
\<close>

definition begin_record ::
  "'w env \<Rightarrow> sqs_record \<Rightarrow> 'w state \<Rightarrow> (js_error + (jsval \<times> jsval)) \<times> 'w state" where
  "begin_record env r s =
     (case parse_record env r of
        Inl e \<Rightarrow> (Inl e, s)
      | Inr (msg, sessionId) \<Rightarrow>
          (Inr (msg, sessionId),
           emit (RouteRequest msg sessionId sessionId)
             (console_log (CallingOrchestrator sessionId msg) s)))"

definition routed :: "string \<Rightarrow> RoutingResult \<Rightarrow> 'w state \<Rightarrow> send_message_command \<times> 'w state" where
  "routed queue orchestratorResponse s =
     (let s1 = console_log (OrchestratorResponse orchestratorResponse) s;
          customerMessage =
            \<lparr>destination = ''customer'', message = output orchestratorResponse\<rparr>;
          command = \<lparr>QueueUrl = queue, MessageBody = customerMessage\<rparr>
      in (command, emit (SqsSend command) s1))"

definition sent :: "send_message_result \<Rightarrow> 'w state \<Rightarrow> 'w state" where
  "sent response s = console_log (MessageSent (MessageId response)) s"

definition try_record ::
  "'w env \<Rightarrow> string \<Rightarrow> MultiAgentOrchestrator \<Rightarrow> sqs_record \<Rightarrow> 'w state \<Rightarrow>
     (js_error + unit) \<times> 'w state" where
  "try_record env queue orch r s =
     (case begin_record env r s of
        (Inl e, s1) \<Rightarrow> (Inl e, s1)
      | (Inr (msg, sessionId), s1) \<Rightarrow>
          (case routeRequest env orch msg sessionId sessionId (world s1) of
             (Inl e, w) \<Rightarrow> (Inl e, s1\<lparr>world := w\<rparr>)
           | (Inr orchestratorResponse, w) \<Rightarrow>
               (case routed queue orchestratorResponse (s1\<lparr>world := w\<rparr>) of
                  (command, s2) \<Rightarrow>
                    (case sqs_send env command (world s2) of
                       (Inl e, w') \<Rightarrow> (Inl e, s2\<lparr>world := w'\<rparr>)
                     | (Inr response, w') \<Rightarrow> (Inr (), sent response (s2\<lparr>world := w'\<rparr>))))))"

text \<open>The \<^verbatim>\<open>try\<close> with its \<^verbatim>\<open>catch\<close>: what is thrown is logged, nothing is rethrown.\<close>

definition process_record ::
  "'w env \<Rightarrow> string \<Rightarrow> MultiAgentOrchestrator \<Rightarrow> sqs_record \<Rightarrow> 'w state \<Rightarrow> 'w state" where
  "process_record env queue orch r s =
     (case try_record env queue orch r s of
        (Inr _, s') \<Rightarrow> s'
      | (Inl e, s') \<Rightarrow> console_error (ErrorProcessingRecord e) s')"

text \<open>\<^verbatim>\<open>for (const record of event.Records) { ... }\<close>\<close>

fun for_records ::
  "'w env \<Rightarrow> string \<Rightarrow> MultiAgentOrchestrator \<Rightarrow> sqs_record list \<Rightarrow> 'w state \<Rightarrow> 'w state" where
  "for_records env queue orch [] s = s"
| "for_records env queue orch (r # rs) s =
     for_records env queue orch rs (process_record env queue orch r s)"

definition handler :: "'w env \<Rightarrow> sqs_event \<Rightarrow> 'w state \<Rightarrow> (js_error + summary) \<times> 'w state" where
  "handler env ev s =
     (case await_orchestrator env (console_log (ReceivedEvent ev) s) of
        (Inl e, s1) \<Rightarrow> (Inl e, s1)
      | (Inr orch, s1) \<Rightarrow>
          (if falsy (QUEUE_URL env)
           then (Inl (Error ''QUEUE_URL environment variable is not set''), s1)
           else (Inr \<lparr>summary_message =
                        ''Processed '' @ string_of_nat (length (Records ev)) @ '' messages''\<rparr>,
                 for_records env (the (QUEUE_URL env)) orch (Records ev) s1)))"

text \<open>A process: the module is loaded, then the handler is invoked for one event after the other.\<close>

fun invocations :: "'w env \<Rightarrow> sqs_event list \<Rightarrow> 'w state \<Rightarrow> 'w state" where
  "invocations env [] s = s"
| "invocations env (ev # evs) s = invocations env evs (snd (handler env ev s))"

section \<open>Invocations that overlap\<close>

text \<open>
  The runtime runs one stretch of code at a time, from one \<^verbatim>\<open>await\<close> to the next;
  invocations of the handler that are under way at the same time take turns at
  their \<^verbatim>\<open>await\<close>s. A process is the module's variables together with what each
  invocation waits for. While the promise in \<^verbatim>\<open>orchestratorPromise\<close> is pending,
  \<^verbatim>\<open>initializing\<close> says where \<^verbatim>\<open>initializeOrchestrator\<close> waits: for the parameter
  store's answer inside \<^verbatim>\<open>getApiKeyFromSSM\<close>, or with that function settled and its
  own continuation due. The field \<^verbatim>\<open>orchestratorPromise\<close> of the variables holds
  the promise once it is settled.
\<close>

datatype init_stage =
    AwaitingParameter
  | KeySettled "js_error + string"

datatype task =
    NotStarted sqs_event
  | AwaitingOrchestrator sqs_event
  | AwaitingRoute sqs_event string MultiAgentOrchestrator jsval jsval "sqs_record list"
  | AwaitingSend sqs_event string MultiAgentOrchestrator send_message_command "sqs_record list"
  | Finished "js_error + summary"

record 'w process =
  vars :: "'w state"
  initializing :: "init_stage option"
  tasks :: "task list"

text \<open>\<^verbatim>\<open>!orchestratorPromise\<close>: the variable holds no promise, pending or settled.\<close>

definition no_promise :: "'w process \<Rightarrow> bool" where
  "no_promise p = (orchestratorPromise (vars p) = None \<and> initializing p = None)"

text \<open>
  \<^verbatim>\<open>orchestratorPromise = initializeOrchestrator()\<close>: the call runs up to its first
  \<^verbatim>\<open>await\<close>. Without a key that is the request to the parameter store. With a key
  the function has no \<^verbatim>\<open>await\<close> and its promise is settled when the call returns.
\<close>

definition begin_initialization :: "'w env \<Rightarrow> 'w process \<Rightarrow> 'w process" where
  "begin_initialization env p =
     (if falsy (apiKey (vars p))
      then p\<lparr>vars := emit (SsmSend getParameterCommand) (vars p),
             initializing := Some AwaitingParameter\<rparr>
      else (case ensure_orchestrator env (vars p) of
              (r, s') \<Rightarrow> p\<lparr>vars := s'\<lparr>orchestratorPromise := Some r\<rparr>\<rparr>))"

text \<open>
  The loop from a given record on, up to the next \<^verbatim>\<open>await\<close>: records whose
  arguments cannot be had are logged and skipped, the first routing call suspends
  the invocation, and the end of the list returns the summary.
\<close>

fun continue_loop ::
  "'w env \<Rightarrow> sqs_event \<Rightarrow> string \<Rightarrow> MultiAgentOrchestrator \<Rightarrow> sqs_record list \<Rightarrow> 'w state \<Rightarrow>
     task \<times> 'w state" where
  "continue_loop env ev queue orch [] s =
     (Finished
        (Inr \<lparr>summary_message =
                ''Processed '' @ string_of_nat (length (Records ev)) @ '' messages''\<rparr>),
      s)"
| "continue_loop env ev queue orch (r # rs) s =
     (case begin_record env r s of
        (Inl e, s1) \<Rightarrow>
          continue_loop env ev queue orch rs (console_error (ErrorProcessingRecord e) s1)
      | (Inr (msg, sessionId), s1) \<Rightarrow> (AwaitingRoute ev queue orch msg sessionId rs, s1))"

text \<open>
  The stretches of code, named by what ends the wait before them: the host calls
  the handler for the invocation's event, the parameter store answers,
  \<^verbatim>\<open>getApiKeyFromSSM\<close>'s promise is picked up by \<^verbatim>\<open>initializeOrchestrator\<close>, an
  invocation picks up the settled \<^verbatim>\<open>orchestratorPromise\<close>, the router answers an
  invocation, the queue answers an invocation.
\<close>

datatype turn =
    Start nat
  | ParameterAnswer
  | KeyAwaited
  | OrchestratorAwaited nat
  | RouteAnswer nat
  | SendAnswer nat

definition set_task :: "nat \<Rightarrow> task \<times> 'w state \<Rightarrow> 'w process \<Rightarrow> 'w process" where
  "set_task i ts p = p\<lparr>vars := snd ts, tasks := (tasks p)[i := fst ts]\<rparr>"

definition task_at :: "'w process \<Rightarrow> nat \<Rightarrow> task option" where
  "task_at p i = (if i < length (tasks p) then Some (tasks p ! i) else None)"

fun step :: "'w env \<Rightarrow> turn \<Rightarrow> 'w process \<Rightarrow> 'w process option" where
  "step env (Start i) p =
     (case task_at p i of
        Some (NotStarted ev) \<Rightarrow>
          (let p1 = p\<lparr>vars := console_log (ReceivedEvent ev) (vars p)\<rparr>;
               p2 = (if no_promise p1 then begin_initialization env p1 else p1)
           in Some (set_task i (AwaitingOrchestrator ev, vars p2) p2))
      | _ \<Rightarrow> None)"
| "step env ParameterAnswer p =
     (case initializing p of
        Some AwaitingParameter \<Rightarrow>
          (case ssm_send env getParameterCommand (world (vars p)) of
             (answer, w) \<Rightarrow>
               (case key_settled answer ((vars p)\<lparr>world := w\<rparr>) of
                  (r, s') \<Rightarrow> Some (p\<lparr>vars := s', initializing := Some (KeySettled r)\<rparr>)))
      | _ \<Rightarrow> None)"
| "step env KeyAwaited p =
     (case initializing p of
        Some (KeySettled r) \<Rightarrow>
          (case key_awaited env r (vars p) of
             (res, s') \<Rightarrow>
               Some (p\<lparr>vars := s'\<lparr>orchestratorPromise := Some res\<rparr>, initializing := None\<rparr>))
      | _ \<Rightarrow> None)"
| "step env (OrchestratorAwaited i) p =
     (case task_at p i of
        Some (AwaitingOrchestrator ev) \<Rightarrow>
          (case orchestratorPromise (vars p) of
             None \<Rightarrow> None
           | Some (Inl e) \<Rightarrow> Some (set_task i (Finished (Inl e), vars p) p)
           | Some (Inr orch) \<Rightarrow>
               (if falsy (QUEUE_URL env)
                then Some (set_task i
                             (Finished (Inl (Error ''QUEUE_URL environment variable is not set'')),
                              vars p) p)
                else Some (set_task i
                             (continue_loop env ev (the (QUEUE_URL env)) orch (Records ev) (vars p))
                             p)))
      | _ \<Rightarrow> None)"
| "step env (RouteAnswer i) p =
     (case task_at p i of
        Some (AwaitingRoute ev queue orch msg sessionId rs) \<Rightarrow>
          (case routeRequest env orch msg sessionId sessionId (world (vars p)) of
             (Inl e, w) \<Rightarrow>
               Some (set_task i
                       (continue_loop env ev queue orch rs
                          (console_error (ErrorProcessingRecord e) ((vars p)\<lparr>world := w\<rparr>)))
                       p)
           | (Inr orchestratorResponse, w) \<Rightarrow>
               (case routed queue orchestratorResponse ((vars p)\<lparr>world := w\<rparr>) of
                  (command, s') \<Rightarrow>
                    Some (set_task i (AwaitingSend ev queue orch command rs, s') p)))
      | _ \<Rightarrow> None)"
| "step env (SendAnswer i) p =
     (case task_at p i of
        Some (AwaitingSend ev queue orch command rs) \<Rightarrow>
          (case sqs_send env command (world (vars p)) of
             (Inl e, w) \<Rightarrow>
               Some (set_task i
                       (continue_loop env ev queue orch rs
                          (console_error (ErrorProcessingRecord e) ((vars p)\<lparr>world := w\<rparr>)))
                       p)
           | (Inr response, w) \<Rightarrow>
               Some (set_task i
                       (continue_loop env ev queue orch rs
                          (sent response ((vars p)\<lparr>world := w\<rparr>)))
                       p))
      | _ \<Rightarrow> None)"

text \<open>A schedule is a list of turns; a turn that cannot be taken ends the run with nothing.\<close>

fun run :: "'w env \<Rightarrow> turn list \<Rightarrow> 'w process \<Rightarrow> 'w process option" where
  "run env [] p = Some p"
| "run env (t # ts) p = (case step env t p of None \<Rightarrow> None | Some p' \<Rightarrow> run env ts p')"

text \<open>A freshly loaded module with one invocation to come for each event.\<close>

definition fresh_process :: "'w \<Rightarrow> sqs_event list \<Rightarrow> 'w process" where
  "fresh_process w evs =
     \<lparr>vars = \<lparr>apiKey = None, orchestrator = None, orchestratorPromise = None,
               world = w, trace = []\<rparr>,
      initializing = None,
      tasks = map NotStarted evs\<rparr>"

text \<open>A process with one invocation.\<close>

definition alone :: "'w state \<Rightarrow> init_stage option \<Rightarrow> task \<Rightarrow> 'w process" where
  "alone s ini t = \<lparr>vars = s, initializing = ini, tasks = [t]\<rparr>"

section \<open>Reading the trace\<close>

text \<open>The kinds of event that the theorems count, and the events added between two states.\<close>

fun is_fetch :: "event \<Rightarrow> bool" where
  "is_fetch (SsmSend c) = True"
| "is_fetch e = False"

fun is_construction :: "event \<Rightarrow> bool" where
  "is_construction (NewOrchestrator opts) = True"
| "is_construction e = False"

fun is_registration :: "event \<Rightarrow> bool" where
  "is_registration (AddAgent a) = True"
| "is_registration e = False"

fun is_route :: "event \<Rightarrow> bool" where
  "is_route (RouteRequest m u h) = True"
| "is_route e = False"

fun is_send :: "event \<Rightarrow> bool" where
  "is_send (SqsSend c) = True"
| "is_send e = False"

fun is_outcome :: "event \<Rightarrow> bool" where
  "is_outcome (ConsoleLog (MessageSent i)) = True"
| "is_outcome (ConsoleError (ErrorProcessingRecord e)) = True"
| "is_outcome e = False"

definition new_events :: "'w state \<Rightarrow> 'w state \<Rightarrow> event list" where
  "new_events s s' = drop (length (trace s)) (trace s')"

text \<open>The value of a string of decimal digits.\<close>

definition decimal_value :: "string \<Rightarrow> nat" where
  "decimal_value ds = foldl (\<lambda>n c. 10 * n + (of_char c - 48)) 0 ds"

text \<open>
  The events that the record loop emits, with the routing call's second and third
  argument equal.
\<close>

fun loop_event :: "event \<Rightarrow> bool" where
  "loop_event (ConsoleLog l) = True"
| "loop_event (ConsoleError l) = True"
| "loop_event (RouteRequest m u h) = (u = h)"
| "loop_event (SqsSend c) = True"
| "loop_event e = False"

text \<open>The two settings of the orchestrator's configuration that the spec names as defaults.\<close>

definition spec_defaults :: "OrchestratorConfig \<Rightarrow> bool" where
  "spec_defaults c = (\<not> USE_DEFAULT_AGENT_IF_NONE_IDENTIFIED c \<and> MAX_MESSAGE_PAIRS_PER_AGENT c = 10)"

text \<open>The three registrations of \<^verbatim>\<open>initializeOrchestrator\<close>, in the order of the source.\<close>

definition registrations :: "'w env \<Rightarrow> event list" where
  "registrations env =
     [AddAgent orderManagementAgent, AddAgent productInfoAgent, AddAgent (humanAgent env)]"

text \<open>
  What holds of every event of a process, and of the orchestrators that its
  variables hold.
\<close>

fun well_formed_event :: "event \<Rightarrow> bool" where
  "well_formed_event (NewOrchestrator opts) = spec_defaults (config opts)"
| "well_formed_event (RouteRequest m u h) = (u = h)"
| "well_formed_event e = True"

definition configured :: "'w state \<Rightarrow> bool" where
  "configured s =
     ((\<forall>orch. orchestrator s = Some orch \<longrightarrow> spec_defaults (config (options orch))) \<and>
      (\<forall>orch. orchestratorPromise s = Some (Inr orch) \<longrightarrow> spec_defaults (config (options orch))))"

definition process_inv :: "'w state \<Rightarrow> bool" where
  "process_inv s =
     (list_all well_formed_event (trace s) \<and> configured s \<and>
      length (filter is_fetch (trace s)) \<le> 1 \<and>
      (orchestratorPromise s = None \<longrightarrow> filter is_fetch (trace s) = []))"

text \<open>What the theorems say of the tasks of overlapping invocations.\<close>

fun not_started :: "task \<Rightarrow> bool" where
  "not_started (NotStarted ev) = True"
| "not_started t = False"

fun awaits_initialization :: "task \<Rightarrow> bool" where
  "awaits_initialization (NotStarted ev) = True"
| "awaits_initialization (AwaitingOrchestrator ev) = True"
| "awaits_initialization t = False"

fun task_orchestrator :: "task \<Rightarrow> MultiAgentOrchestrator option" where
  "task_orchestrator (AwaitingRoute ev queue orch msg sessionId rs) = Some orch"
| "task_orchestrator (AwaitingSend ev queue orch command rs) = Some orch"
| "task_orchestrator t = None"

text \<open>
  The invariant of overlapping invocations: what holds of the variables and the
  trace in each state of the promise, and of the tasks. Two states are the same to
  the initialization when they differ by events of the record loop only.
\<close>

definition settled_ok ::
  "'w env \<Rightarrow> js_error + MultiAgentOrchestrator \<Rightarrow> event list \<Rightarrow> bool" where
  "settled_ok env r tr =
     (length (filter is_construction tr) \<le> 1 \<and>
      (\<exists>n. filter is_registration tr = take n (registrations env)) \<and>
      (\<forall>orch. r = Inr orch \<longrightarrow>
         filter is_construction tr = [NewOrchestrator (options orch)] \<and>
         filter is_registration tr = registrations env))"

definition vars_ok :: "'w env \<Rightarrow> init_stage option \<Rightarrow> 'w state \<Rightarrow> bool" where
  "vars_ok env ini s =
     ((ini \<noteq> None \<longrightarrow> orchestratorPromise s = None) \<and>
      (orchestratorPromise s = None \<and> ini = None \<longrightarrow> filter is_fetch (trace s) = []) \<and>
      (orchestratorPromise s \<noteq> None \<or> ini \<noteq> None \<longrightarrow>
         filter is_fetch (trace s) = [SsmSend getParameterCommand]) \<and>
      (orchestratorPromise s = None \<longrightarrow>
         apiKey s = None \<and> orchestrator s = None \<and>
         filter is_construction (trace s) = [] \<and> filter is_registration (trace s) = []) \<and>
      (\<forall>r. orchestratorPromise s = Some r \<longrightarrow> settled_ok env r (trace s)))"

definition tasks_ok ::
  "init_stage option \<Rightarrow> (js_error + MultiAgentOrchestrator) option \<Rightarrow> task list \<Rightarrow> bool" where
  "tasks_ok ini pr ts =
     ((pr = None \<and> ini = None \<longrightarrow> list_all not_started ts) \<and>
      (pr = None \<longrightarrow> list_all awaits_initialization ts) \<and>
      (\<forall>t\<in>set ts. \<forall>orch. task_orchestrator t = Some orch \<longrightarrow> pr = Some (Inr orch)))"

definition single_flight :: "'w env \<Rightarrow> 'w process \<Rightarrow> bool" where
  "single_flight env p =
     (vars_ok env (initializing p) (vars p) \<and>
      tasks_ok (initializing p) (orchestratorPromise (vars p)) (tasks p))"

definition same_init :: "'w state \<Rightarrow> 'w state \<Rightarrow> bool" where
  "same_init s s' =
     (apiKey s' = apiKey s \<and> orchestrator s' = orchestrator s \<and>
      orchestratorPromise s' = orchestratorPromise s \<and>
      (\<exists>evs. trace s' = trace s @ evs \<and> list_all loop_event evs))"

section \<open>A sample environment\<close>

text \<open>
  A parameter store that answers with a key, a router that answers every request
  with an order status, and a queue that accepts every message; the outside world's
  state counts the calls. The parser knows four bodies.
\<close>

definition quoted :: "string \<Rightarrow> string" where
  "quoted s = CHR 0x22 # s @ [CHR 0x22]"

definition order_body :: string where
  "order_body =
     ''{'' @ quoted ''sessionId'' @ '':'' @ quoted ''abc'' @ '','' @
     quoted ''message'' @ '':'' @ quoted ''Where is my order #123?'' @ ''}''"

definition order_status :: RoutingResult where
  "order_status =
     \<lparr>output = ''Order #123 has shipped.'', selectedAgent = ''order-management'',
      success = True\<rparr>"

definition demo_env :: "nat env" where
  "demo_env =
     \<lparr>QUEUE_URL = Some ''https://sqs.example/customer'',
      HISTORY_TABLE_NAME = Some ''history'',
      AWS_REGION = Some ''us-east-1'',
      HISTORY_TABLE_TTL_KEY_NAME = None,
      HISTORY_TABLE_TTL_DURATION = None,
      JSON_parse =
        (\<lambda>b. if b = order_body
             then Inr (JObj [(''sessionId'', JStr ''abc''),
                             (''message'', JStr ''Where is my order #123?'')])
             else if b = ''{}'' then Inr (JObj [])
             else if b = ''null'' then Inr JNull
             else Inl (SyntaxError ''Unexpected token'')),
      ssm_send = (\<lambda>c w. (Inr \<lparr>Parameter = Some \<lparr>Value = Some ''sk-test''\<rparr>\<rparr>, Suc w)),
      constructor_throws = (\<lambda>opts. None),
      addAgent_throws = (\<lambda>orch a. None),
      routeRequest = (\<lambda>orch m sid hk w. (Inr order_status, Suc w)),
      sqs_send = (\<lambda>c w. (Inr \<lparr>MessageId = Some ''m-1''\<rparr>, Suc w))\<rparr>"

definition throttled_env :: "nat env" where
  "throttled_env =
     demo_env
       \<lparr>ssm_send :=
          (\<lambda>c w. if w = 0 then (Inl (Error ''ThrottlingException''), Suc w)
                 else (Inr \<lparr>Parameter = Some \<lparr>Value = Some ''sk-test''\<rparr>\<rparr>, Suc w))\<rparr>"

definition empty_value_env :: "nat env" where
  "empty_value_env =
     demo_env\<lparr>ssm_send := (\<lambda>c w. (Inr \<lparr>Parameter = Some \<lparr>Value = Some []\<rparr>\<rparr>, Suc w))\<rparr>"

definition fresh_state :: "nat state" where
  "fresh_state =
     \<lparr>apiKey = None, orchestrator = None, orchestratorPromise = None, world = 0, trace = []\<rparr>"

definition demo_orchestrator :: MultiAgentOrchestrator where
  "demo_orchestrator =
     \<lparr>options = orchestrator_options demo_env (Some ''sk-test''),
      agents = [orderManagementAgent, productInfoAgent, humanAgent demo_env]\<rparr>"

definition order_record :: sqs_record where
  "order_record = \<lparr>messageId = ''1'', body = order_body\<rparr>"

definition malformed_record :: sqs_record where
  "malformed_record = \<lparr>messageId = ''2'', body = ''{ sessionId''\<rparr>"

definition empty_record :: sqs_record where
  "empty_record = \<lparr>messageId = ''3'', body = ''{}''\<rparr>"

definition null_record :: sqs_record where
  "null_record = \<lparr>messageId = ''4'', body = ''null''\<rparr>"

definition mixed_batch :: sqs_event where
  "mixed_batch = \<lparr>Records = [order_record, malformed_record, empty_record]\<rparr>"

text \<open>The state of the sample process once its orchestrator is there.\<close>

definition warm_state :: "nat state" where
  "warm_state =
     \<lparr>apiKey = Some ''sk-test'', orchestrator = Some demo_orchestrator,
      orchestratorPromise = Some (Inr demo_orchestrator), world = 1,
      trace =
        [SsmSend getParameterCommand,
         NewOrchestrator (orchestrator_options demo_env (Some ''sk-test'')),
         AddAgent orderManagementAgent, AddAgent productInfoAgent,
         AddAgent (humanAgent demo_env)]\<rparr>"

definition three_events :: "sqs_event list" where
  "three_events = [mixed_batch, \<lparr>Records = []\<rparr>, \<lparr>Records = [order_record]\<rparr>]"

text \<open>
  Two runs of three invocations in the sample environment: all three start before
  the parameter store answers; and a run in which the third starts while the
  initialization is pending and two invocations work on their records in turns.
\<close>

definition all_started :: "nat process option" where
  "all_started = run demo_env [Start 0, Start 1, Start 2] (fresh_process 0 three_events)"

definition interleaved :: "nat process option" where
  "interleaved =
     run demo_env
       [Start 0, Start 1, ParameterAnswer, Start 2, KeyAwaited, OrchestratorAwaited 2,
        OrchestratorAwaited 0, RouteAnswer 2, RouteAnswer 0, SendAnswer 0,
        OrchestratorAwaited 1, SendAnswer 2]
       (fresh_process 0 three_events)"

section \<open>Lemmas\<close>

lemmas model_defs =
  handler_def await_orchestrator_def initializeOrchestrator_def getApiKeyFromSSM_def
  key_settled_def retrieved_key_def key_awaited_def ensure_orchestrator_def
  construct_orchestrator_def addAgent_def try_record_def begin_record_def parse_record_def
  routed_def sent_def process_record_def emit_def console_log_def console_error_def
  falsy_def Let_def getParameterCommand_def module_init_def new_events_def

lemmas demo_defs =
  demo_env_def throttled_env_def empty_value_env_def fresh_state_def demo_orchestrator_def
  order_record_def malformed_record_def empty_record_def null_record_def warm_state_def
  mixed_batch_def
  order_body_def quoted_def order_status_def

subsection \<open>The state's fields under logging\<close>

lemma emit_fields [simp]:
  "world (emit e s) = world s"
  "apiKey (emit e s) = apiKey s"
  "orchestrator (emit e s) = orchestrator s"
  "orchestratorPromise (emit e s) = orchestratorPromise s"
  "trace (emit e s) = trace s @ [e]"
  by (simp_all add: emit_def)

lemma console_fields [simp]:
  "world (console_log l s) = world s"
  "apiKey (console_log l s) = apiKey s"
  "orchestrator (console_log l s) = orchestrator s"
  "orchestratorPromise (console_log l s) = orchestratorPromise s"
  "trace (console_log l s) = trace s @ [ConsoleLog l]"
  "world (console_error l s) = world s"
  "apiKey (console_error l s) = apiKey s"
  "orchestrator (console_error l s) = orchestrator s"
  "orchestratorPromise (console_error l s) = orchestratorPromise s"
  "trace (console_error l s) = trace s @ [ConsoleError l]"
  by (simp_all add: console_log_def console_error_def)

subsection \<open>Decimal digits\<close>

lemma digit_value: "d < 10 \<Longrightarrow> of_char (''0123456789'' ! d) = (48::nat) + d"
proof -
  assume "d < 10"
  then have "d \<in> {0, 1, 2, 3, 4, 5, 6, 7, 8, 9}" by auto
  then show ?thesis by auto
qed

lemma decimal_value_string_of_nat: "decimal_value (string_of_nat n) = n"
proof (induction n rule: string_of_nat.induct)
  case (1 n)
  show ?case
  proof (cases "n < 10")
    case True
    then show ?thesis
      by (subst string_of_nat.simps) (simp add: decimal_value_def digit_value)
  next
    case False
    with 1 have ih: "decimal_value (string_of_nat (n div 10)) = n div 10" by simp
    have "decimal_value (string_of_nat n) = 10 * decimal_value (string_of_nat (n div 10)) + n mod 10"
      using False
      by (subst string_of_nat.simps) (simp add: decimal_value_def digit_value)
    with ih show ?thesis by simp
  qed
qed

subsection \<open>The record loop\<close>

lemma for_records_append:
  "for_records env q orch (pre @ post) s =
     for_records env q orch post (for_records env q orch pre s)"
  by (induction pre arbitrary: s) simp_all

lemma try_record_trace:
  "\<exists>evs. trace (snd (try_record env q orch r s)) = trace s @ evs"
  by (auto simp: try_record_def begin_record_def routed_def sent_def Let_def
           split: prod.splits sum.splits)

lemma process_record_outcome:
  "\<exists>evs x. trace (process_record env q orch r s) = trace s @ evs @ [x]
      \<and> is_outcome x \<and> filter is_outcome evs = []"
  by (auto simp: process_record_def try_record_def begin_record_def routed_def sent_def Let_def
           split: prod.splits sum.splits)

lemma for_records_outcomes:
  "\<exists>evs. trace (for_records env q orch rs s) = trace s @ evs
      \<and> length (filter is_outcome evs) = length rs"
proof (induction rs arbitrary: s)
  case Nil
  then show ?case by simp
next
  case (Cons r rs)
  obtain evs x where a: "trace (process_record env q orch r s) = trace s @ evs @ [x]"
    "is_outcome x" "filter is_outcome evs = []"
    using process_record_outcome by blast
  obtain evs' where b: "trace (for_records env q orch rs (process_record env q orch r s))
       = trace (process_record env q orch r s) @ evs'"
     "length (filter is_outcome evs') = length rs"
    using Cons.IH by blast
  show ?case
    using a b by simp
qed

lemma try_record_success:
  assumes "parse_record env r = Inr (msg, sid)"
    and "routeRequest env orch msg sid sid (world s) = (Inr resp, w)"
  shows "filter is_send (new_events s (snd (try_record env q orch r s))) =
           [SqsSend \<lparr>QueueUrl = q,
                     MessageBody = \<lparr>destination = ''customer'', message = output resp\<rparr>\<rparr>]"
proof -
  let ?s1 = "emit (RouteRequest msg sid sid) (console_log (CallingOrchestrator sid msg) s)"
  have b: "begin_record env r s = (Inr (msg, sid), ?s1)"
    using assms(1) by (simp add: begin_record_def)
  have w: "world ?s1 = world s" by simp
  show ?thesis
    by (cases "sqs_send env \<lparr>QueueUrl = q,
                     MessageBody = \<lparr>destination = ''customer'', message = output resp\<rparr>\<rparr> w")
       (simp add: try_record_def b assms(2) routed_def sent_def Let_def new_events_def
           split: sum.splits)
qed

lemma process_record_success:
  assumes "parse_record env r = Inr (msg, sid)"
    and "routeRequest env orch msg sid sid (world s) = (Inr resp, w)"
  shows "filter is_send (new_events s (process_record env q orch r s)) =
           [SqsSend \<lparr>QueueUrl = q,
                     MessageBody = \<lparr>destination = ''customer'', message = output resp\<rparr>\<rparr>]"
proof (cases "try_record env q orch r s")
  case (Pair res s')
  obtain evs where evs: "trace s' = trace s @ evs"
    using try_record_trace [of env q orch r s] Pair by auto
  show ?thesis
    using try_record_success [OF assms, of q] Pair evs
    by (cases res) (simp_all add: process_record_def new_events_def)
qed

lemma process_record_frame:
  "apiKey (process_record env q orch r s) = apiKey s"
  "orchestrator (process_record env q orch r s) = orchestrator s"
  "orchestratorPromise (process_record env q orch r s) = orchestratorPromise s"
  by (simp_all add: process_record_def try_record_def begin_record_def routed_def sent_def Let_def
           split: prod.splits sum.splits)

lemma try_record_events:
  "\<exists>evs. trace (snd (try_record env q orch r s)) = trace s @ evs \<and> list_all loop_event evs"
  by (simp add: try_record_def begin_record_def routed_def sent_def Let_def
           split: prod.splits sum.splits)

lemma process_record_events:
  "\<exists>evs. trace (process_record env q orch r s) = trace s @ evs \<and> list_all loop_event evs"
proof (cases "try_record env q orch r s")
  case (Pair res s')
  obtain evs where "trace s' = trace s @ evs" "list_all loop_event evs"
    using try_record_events [of env q orch r s] Pair by auto
  then show ?thesis
    using Pair by (cases res) (simp_all add: process_record_def)
qed

lemma for_records_frame:
  "apiKey (for_records env q orch rs s) = apiKey s \<and>
   orchestrator (for_records env q orch rs s) = orchestrator s \<and>
   orchestratorPromise (for_records env q orch rs s) = orchestratorPromise s"
  by (induction rs arbitrary: s) (simp_all add: process_record_frame)

lemma for_records_events:
  "\<exists>evs. trace (for_records env q orch rs s) = trace s @ evs \<and> list_all loop_event evs"
proof (induction rs arbitrary: s)
  case Nil
  then show ?case by simp
next
  case (Cons r rs)
  obtain evs where a: "trace (process_record env q orch r s) = trace s @ evs"
    "list_all loop_event evs"
    using process_record_events by blast
  obtain evs' where b: "trace (for_records env q orch rs (process_record env q orch r s)) =
      trace (process_record env q orch r s) @ evs'" "list_all loop_event evs'"
    using Cons.IH by blast
  have "trace (for_records env q orch (r # rs) s) = trace s @ (evs @ evs')"
    using a b by simp
  moreover have "list_all loop_event (evs @ evs')"
    using a b by simp
  ultimately show ?case by blast
qed

lemma loop_event_not_init:
  "loop_event x \<Longrightarrow> \<not> is_fetch x \<and> \<not> is_construction x \<and> \<not> is_registration x"
  by (cases x) simp_all

lemma loop_events_filter:
  "list_all loop_event evs \<Longrightarrow>
     filter is_fetch evs = [] \<and> filter is_construction evs = [] \<and> filter is_registration evs = []"
  by (induction evs) (auto dest: loop_event_not_init)

lemma loop_event_well_formed: "loop_event x \<Longrightarrow> well_formed_event x"
  by (cases x) simp_all

lemma loop_events_well_formed: "list_all loop_event evs \<Longrightarrow> list_all well_formed_event evs"
  by (induction evs) (simp_all add: loop_event_well_formed)

lemma try_record_throws:
  "(fst (try_record env q orch r s) = Inl e) \<longleftrightarrow>
     (parse_record env r = Inl e \<or>
      (\<exists>msg sid. parse_record env r = Inr (msg, sid) \<and>
         (fst (routeRequest env orch msg sid sid (world s)) = Inl e \<or>
          (\<exists>resp w. routeRequest env orch msg sid sid (world s) = (Inr resp, w) \<and>
             fst (sqs_send env
                    \<lparr>QueueUrl = q,
                     MessageBody = \<lparr>destination = ''customer'', message = output resp\<rparr>\<rparr> w)
               = Inl e))))"
proof (cases "parse_record env r")
  case (Inl e')
  then show ?thesis by (simp add: try_record_def begin_record_def)
next
  case (Inr args)
  obtain msg sid where args: "args = (msg, sid)" by (cases args)
  obtain res w where route: "routeRequest env orch msg sid sid (world s) = (res, w)"
    by (cases "routeRequest env orch msg sid sid (world s)")
  show ?thesis
  proof (cases res)
    case (Inl e')
    then show ?thesis
      using Inr args route by (simp add: try_record_def begin_record_def)
  next
    case (Inr resp)
    obtain res' w' where send: "sqs_send env
                    \<lparr>QueueUrl = q,
                     MessageBody = \<lparr>destination = ''customer'', message = output resp\<rparr>\<rparr> w
          = (res', w')"
      by (cases "sqs_send env
                    \<lparr>QueueUrl = q,
                     MessageBody = \<lparr>destination = ''customer'', message = output resp\<rparr>\<rparr> w")
    show ?thesis
      using \<open>parse_record env r = Inr args\<close> args route Inr send
      by (cases res') (simp_all add: try_record_def begin_record_def routed_def Let_def)
  qed
qed

subsection \<open>Initialization\<close>

lemma retrieved_key_cases:
  "retrieved_key answer =
     (case answer of
        Inl e \<Rightarrow> Inl e
      | Inr result \<Rightarrow>
          (case Parameter result of
             None \<Rightarrow> Inl (Error ''API key not found in SSM'')
           | Some p \<Rightarrow>
               (case Value p of
                  None \<Rightarrow> Inl (Error ''API key not found in SSM'')
                | Some v \<Rightarrow> if v = [] then Inl (Error ''API key not found in SSM'') else Inr v)))"
  by (simp add: retrieved_key_def falsy_def Let_def split: sum.splits option.splits)

lemma getApiKeyFromSSM_frame:
  "apiKey (snd (getApiKeyFromSSM env s)) = apiKey s"
  "orchestrator (snd (getApiKeyFromSSM env s)) = orchestrator s"
  "orchestratorPromise (snd (getApiKeyFromSSM env s)) = orchestratorPromise s"
  by (simp_all add: getApiKeyFromSSM_def key_settled_def Let_def split: prod.splits sum.splits)

lemma getApiKeyFromSSM_trace:
  "\<exists>evs. trace (snd (getApiKeyFromSSM env s)) = trace s @ SsmSend getParameterCommand # evs
       \<and> list_all loop_event evs"
  by (simp add: getApiKeyFromSSM_def key_settled_def Let_def split: prod.splits sum.splits)

lemma getApiKeyFromSSM_truthy:
  "fst (getApiKeyFromSSM env s) = Inr k \<Longrightarrow> k \<noteq> []"
  by (auto simp: getApiKeyFromSSM_def key_settled_def retrieved_key_cases Let_def
      split: prod.splits sum.splits option.splits if_splits)

lemma construct_orchestrator_frame:
  "apiKey (snd (construct_orchestrator env s)) = apiKey s"
  "orchestratorPromise (snd (construct_orchestrator env s)) = orchestratorPromise s"
  by (simp_all add: construct_orchestrator_def addAgent_def Let_def split: option.splits)

lemma construct_orchestrator_trace:
  "\<exists>n. trace (snd (construct_orchestrator env s)) =
      trace s @ NewOrchestrator (orchestrator_options env (apiKey s)) # take n (registrations env)"
proof -
  have "trace (snd (construct_orchestrator env s)) =
      trace s @ NewOrchestrator (orchestrator_options env (apiKey s)) # take 0 (registrations env)
    \<or> trace (snd (construct_orchestrator env s)) =
      trace s @ NewOrchestrator (orchestrator_options env (apiKey s)) # take 1 (registrations env)
    \<or> trace (snd (construct_orchestrator env s)) =
      trace s @ NewOrchestrator (orchestrator_options env (apiKey s)) # take 2 (registrations env)
    \<or> trace (snd (construct_orchestrator env s)) =
      trace s @ NewOrchestrator (orchestrator_options env (apiKey s)) # take 3 (registrations env)"
    by (simp add: construct_orchestrator_def addAgent_def Let_def registrations_def
             split: option.splits)
  then show ?thesis by blast
qed

lemma construct_orchestrator_result:
  assumes "fst (construct_orchestrator env s) = Inr orch"
  shows "options orch = orchestrator_options env (apiKey s)"
    and "agents orch = [orderManagementAgent, productInfoAgent, humanAgent env]"
    and "orchestrator (snd (construct_orchestrator env s)) = Some orch"
    and "trace (snd (construct_orchestrator env s)) =
           trace s @ NewOrchestrator (orchestrator_options env (apiKey s)) # registrations env"
  using assms
  by (auto simp: construct_orchestrator_def addAgent_def Let_def registrations_def
       split: option.splits)

lemma construct_orchestrator_variable:
  "orchestrator (snd (construct_orchestrator env s)) = orchestrator s \<or>
   (\<exists>orch. orchestrator (snd (construct_orchestrator env s)) = Some orch
      \<and> options orch = orchestrator_options env (apiKey s))"
  by (simp add: construct_orchestrator_def addAgent_def Let_def split: option.splits)

lemma spec_defaults_options [simp]: "spec_defaults (config (orchestrator_options env key))"
  by (simp add: spec_defaults_def orchestrator_options_def)

lemma registrations_well_formed [simp]:
  "list_all well_formed_event (take n (registrations env))"
  "filter is_fetch (take n (registrations env)) = []"
proof -
  have "list_all well_formed_event (registrations env)"
    "filter is_fetch (registrations env) = []"
    by (simp_all add: registrations_def)
  then show "list_all well_formed_event (take n (registrations env))"
    "filter is_fetch (take n (registrations env)) = []"
    by (auto simp: list_all_iff filter_empty_conv dest: in_set_takeD)
qed

lemma ensure_orchestrator_frame:
  "apiKey (snd (ensure_orchestrator env s)) = apiKey s"
  "orchestratorPromise (snd (ensure_orchestrator env s)) = orchestratorPromise s"
  by (simp_all add: ensure_orchestrator_def construct_orchestrator_frame split: option.splits)

lemma ensure_orchestrator_trace:
  "\<exists>evs. trace (snd (ensure_orchestrator env s)) = trace s @ evs
     \<and> list_all well_formed_event evs \<and> filter is_fetch evs = []"
proof (cases "orchestrator s")
  case None
  obtain n where "trace (snd (construct_orchestrator env s)) =
      trace s @ NewOrchestrator (orchestrator_options env (apiKey s)) # take n (registrations env)"
    using construct_orchestrator_trace by blast
  then show ?thesis
    using None by (simp add: ensure_orchestrator_def)
next
  case (Some orch)
  then show ?thesis by (simp add: ensure_orchestrator_def)
qed

lemma ensure_orchestrator_configured:
  assumes "\<forall>orch. orchestrator s = Some orch \<longrightarrow> spec_defaults (config (options orch))"
  shows "\<forall>orch. orchestrator (snd (ensure_orchestrator env s)) = Some orch \<longrightarrow>
           spec_defaults (config (options orch))"
    and "\<forall>orch. fst (ensure_orchestrator env s) = Inr orch \<longrightarrow>
           spec_defaults (config (options orch))"
proof -
  show "\<forall>orch. orchestrator (snd (ensure_orchestrator env s)) = Some orch \<longrightarrow>
           spec_defaults (config (options orch))"
  proof (cases "orchestrator s")
    case None
    then show ?thesis
      using construct_orchestrator_variable [of env s]
      by (auto simp: ensure_orchestrator_def)
  next
    case (Some orch)
    then show ?thesis using assms by (simp add: ensure_orchestrator_def)
  qed
  show "\<forall>orch. fst (ensure_orchestrator env s) = Inr orch \<longrightarrow>
           spec_defaults (config (options orch))"
  proof (cases "orchestrator s")
    case None
    then show ?thesis
      using construct_orchestrator_result(1) [of env s]
      by (auto simp: ensure_orchestrator_def)
  next
    case (Some orch)
    then show ?thesis using assms by (simp add: ensure_orchestrator_def)
  qed
qed

lemma key_awaited_frame:
  "orchestratorPromise (snd (key_awaited env r s)) = orchestratorPromise s"
  "r = Inr k \<Longrightarrow> apiKey (snd (key_awaited env r s)) = Some k"
  "r = Inl e \<Longrightarrow> apiKey (snd (key_awaited env r s)) = apiKey s"
  by (simp_all add: key_awaited_def ensure_orchestrator_frame split: sum.splits)

lemma key_awaited_trace:
  "\<exists>evs. trace (snd (key_awaited env r s)) = trace s @ evs
     \<and> list_all well_formed_event evs \<and> filter is_fetch evs = []"
proof (cases r)
  case (Inl e)
  then show ?thesis by (simp add: key_awaited_def)
next
  case (Inr k)
  then show ?thesis
    using ensure_orchestrator_trace [of env "s\<lparr>apiKey := Some k\<rparr>"]
    by (simp add: key_awaited_def)
qed

lemma key_awaited_configured:
  assumes "\<forall>orch. orchestrator s = Some orch \<longrightarrow> spec_defaults (config (options orch))"
  shows "\<forall>orch. orchestrator (snd (key_awaited env r s)) = Some orch \<longrightarrow>
           spec_defaults (config (options orch))"
    and "\<forall>orch. fst (key_awaited env r s) = Inr orch \<longrightarrow>
           spec_defaults (config (options orch))"
proof -
  have a: "\<forall>orch. orchestrator (s\<lparr>apiKey := Some k\<rparr>) = Some orch \<longrightarrow>
             spec_defaults (config (options orch))" for k
    using assms by simp
  show "\<forall>orch. orchestrator (snd (key_awaited env r s)) = Some orch \<longrightarrow>
           spec_defaults (config (options orch))"
    using assms ensure_orchestrator_configured(1) [OF a]
    by (cases r) (simp_all add: key_awaited_def)
  show "\<forall>orch. fst (key_awaited env r s) = Inr orch \<longrightarrow>
           spec_defaults (config (options orch))"
    using assms ensure_orchestrator_configured(2) [OF a]
    by (cases r) (simp_all add: key_awaited_def)
qed

lemma initializeOrchestrator_frame:
  "orchestratorPromise (snd (initializeOrchestrator env s)) = orchestratorPromise s"
  by (simp add: initializeOrchestrator_def key_awaited_frame ensure_orchestrator_frame
        getApiKeyFromSSM_frame split: prod.splits)
     (metis getApiKeyFromSSM_frame(3) snd_conv)

lemma initializeOrchestrator_trace:
  "\<exists>evs. trace (snd (initializeOrchestrator env s)) = trace s @ evs
     \<and> list_all well_formed_event evs
     \<and> filter is_fetch evs = (if falsy (apiKey s) then [SsmSend getParameterCommand] else [])"
proof (cases "falsy (apiKey s)")
  case True
  obtain r s1 where g: "getApiKeyFromSSM env s = (r, s1)"
    by (cases "getApiKeyFromSSM env s")
  obtain evs where e1: "trace s1 = trace s @ SsmSend getParameterCommand # evs"
    "list_all loop_event evs"
    using getApiKeyFromSSM_trace [of env s] g by auto
  have wf1: "list_all well_formed_event evs" "filter is_fetch evs = []"
    using e1(2) loop_events_well_formed loop_events_filter by blast+
  obtain evs' where e2: "trace (snd (key_awaited env r s1)) = trace s1 @ evs'"
    "list_all well_formed_event evs'" "filter is_fetch evs' = []"
    using key_awaited_trace by blast
  have "trace (snd (initializeOrchestrator env s)) =
      trace s @ (SsmSend getParameterCommand # evs @ evs')"
    using True g e1 e2 by (simp add: initializeOrchestrator_def)
  moreover have "list_all well_formed_event (SsmSend getParameterCommand # evs @ evs')"
    using wf1 e2 by simp
  moreover have "filter is_fetch (SsmSend getParameterCommand # evs @ evs') =
      [SsmSend getParameterCommand]"
    using wf1 e2 by simp
  ultimately show ?thesis using True by metis
next
  case False
  then show ?thesis
    using ensure_orchestrator_trace [of env s] by (simp add: initializeOrchestrator_def)
qed

lemma initializeOrchestrator_apiKey:
  "\<not> falsy (apiKey s) \<Longrightarrow> apiKey (snd (initializeOrchestrator env s)) = apiKey s"
  "falsy (apiKey s) \<Longrightarrow> fst (getApiKeyFromSSM env s) = Inr k \<Longrightarrow>
     apiKey (snd (initializeOrchestrator env s)) = Some k"
  "falsy (apiKey s) \<Longrightarrow> fst (getApiKeyFromSSM env s) = Inl e \<Longrightarrow>
     apiKey (snd (initializeOrchestrator env s)) = apiKey s"
proof -
  show "\<not> falsy (apiKey s) \<Longrightarrow> apiKey (snd (initializeOrchestrator env s)) = apiKey s"
    by (simp add: initializeOrchestrator_def ensure_orchestrator_frame)
  show "falsy (apiKey s) \<Longrightarrow> fst (getApiKeyFromSSM env s) = Inr k \<Longrightarrow>
     apiKey (snd (initializeOrchestrator env s)) = Some k"
    by (cases "getApiKeyFromSSM env s")
       (simp add: initializeOrchestrator_def key_awaited_frame)
  show "falsy (apiKey s) \<Longrightarrow> fst (getApiKeyFromSSM env s) = Inl e \<Longrightarrow>
     apiKey (snd (initializeOrchestrator env s)) = apiKey s"
    using getApiKeyFromSSM_frame(1) [of env s]
    by (cases "getApiKeyFromSSM env s")
       (simp add: initializeOrchestrator_def key_awaited_frame)
qed

lemma initializeOrchestrator_configured:
  assumes "\<forall>orch. orchestrator s = Some orch \<longrightarrow> spec_defaults (config (options orch))"
  shows "\<forall>orch. orchestrator (snd (initializeOrchestrator env s)) = Some orch \<longrightarrow>
           spec_defaults (config (options orch))"
    and "\<forall>orch. fst (initializeOrchestrator env s) = Inr orch \<longrightarrow>
           spec_defaults (config (options orch))"
proof -
  obtain r s1 where g: "getApiKeyFromSSM env s = (r, s1)"
    by (cases "getApiKeyFromSSM env s")
  have a: "\<forall>orch. orchestrator s1 = Some orch \<longrightarrow> spec_defaults (config (options orch))"
    using assms getApiKeyFromSSM_frame(2) [of env s] g by simp
  show "\<forall>orch. orchestrator (snd (initializeOrchestrator env s)) = Some orch \<longrightarrow>
           spec_defaults (config (options orch))"
    using key_awaited_configured(1) [OF a] ensure_orchestrator_configured(1) [OF assms] g
    by (simp add: initializeOrchestrator_def)
  show "\<forall>orch. fst (initializeOrchestrator env s) = Inr orch \<longrightarrow>
           spec_defaults (config (options orch))"
    using key_awaited_configured(2) [OF a] ensure_orchestrator_configured(2) [OF assms] g
    by (simp add: initializeOrchestrator_def)
qed

subsection \<open>The handler and a process\<close>

lemma await_orchestrator_trace:
  "\<exists>evs. trace (snd (await_orchestrator env s)) = trace s @ evs
     \<and> list_all well_formed_event evs
     \<and> filter is_fetch evs =
         (if orchestratorPromise s = None \<and> falsy (apiKey s) then [SsmSend getParameterCommand]
          else [])"
proof (cases "orchestratorPromise s")
  case None
  then show ?thesis
    using initializeOrchestrator_trace [of env s]
    by (auto simp: await_orchestrator_def split: prod.splits)
next
  case (Some r)
  then show ?thesis by (simp add: await_orchestrator_def)
qed

lemma await_orchestrator_promise:
  "orchestratorPromise (snd (await_orchestrator env s)) = Some (fst (await_orchestrator env s))"
  "orchestratorPromise s = Some r \<Longrightarrow> await_orchestrator env s = (r, s)"
  by (simp_all add: await_orchestrator_def split: option.splits prod.splits)

lemma await_orchestrator_apiKey:
  "\<not> falsy (apiKey s) \<Longrightarrow> apiKey (snd (await_orchestrator env s)) = apiKey s"
  using initializeOrchestrator_apiKey(1) [of s env]
  by (cases "initializeOrchestrator env s") (simp add: await_orchestrator_def split: option.splits)

lemma await_orchestrator_configured:
  assumes "configured s"
  shows "configured (snd (await_orchestrator env s))"
proof (cases "orchestratorPromise s")
  case None
  have a: "\<forall>orch. orchestrator s = Some orch \<longrightarrow> spec_defaults (config (options orch))"
    using assms by (simp add: configured_def)
  show ?thesis
    using None initializeOrchestrator_configured [OF a, of env]
    by (auto simp: await_orchestrator_def configured_def split: prod.splits)
next
  case (Some r)
  then show ?thesis using assms by (simp add: await_orchestrator_def)
qed

lemma handler_trace:
  "\<exists>evs. trace (snd (handler env ev s)) = trace s @ evs
     \<and> list_all well_formed_event evs
     \<and> filter is_fetch evs =
         (if orchestratorPromise s = None \<and> falsy (apiKey s) then [SsmSend getParameterCommand]
          else [])"
proof -
  let ?s0 = "console_log (ReceivedEvent ev) s"
  obtain r s1 where a: "await_orchestrator env ?s0 = (r, s1)"
    by (cases "await_orchestrator env ?s0")
  obtain evs where e1: "trace s1 = trace ?s0 @ evs" "list_all well_formed_event evs"
    "filter is_fetch evs =
       (if orchestratorPromise s = None \<and> falsy (apiKey s) then [SsmSend getParameterCommand]
        else [])"
    using await_orchestrator_trace [of env ?s0] a by auto
  have base: "trace s1 = trace s @ (ConsoleLog (ReceivedEvent ev) # evs)"
    "list_all well_formed_event (ConsoleLog (ReceivedEvent ev) # evs)"
    "filter is_fetch (ConsoleLog (ReceivedEvent ev) # evs) =
       (if orchestratorPromise s = None \<and> falsy (apiKey s) then [SsmSend getParameterCommand]
        else [])"
    using e1 by simp_all
  show ?thesis
  proof (cases "\<exists>orch. r = Inr orch \<and> \<not> falsy (QUEUE_URL env)")
    case True
    then obtain orch where r: "r = Inr orch" and q: "\<not> falsy (QUEUE_URL env)" by blast
    obtain evs' where e2:
      "trace (for_records env (the (QUEUE_URL env)) orch (Records ev) s1) = trace s1 @ evs'"
      "list_all loop_event evs'"
      using for_records_events by blast
    have "trace (snd (handler env ev s)) = trace s @ ((ConsoleLog (ReceivedEvent ev) # evs) @ evs')"
      using a r q e2 base by (simp add: handler_def)
    moreover have "list_all well_formed_event ((ConsoleLog (ReceivedEvent ev) # evs) @ evs')"
      using base e2 loop_events_well_formed by simp
    moreover have "filter is_fetch ((ConsoleLog (ReceivedEvent ev) # evs) @ evs') =
       (if orchestratorPromise s = None \<and> falsy (apiKey s) then [SsmSend getParameterCommand]
        else [])"
      using base(3) e2 loop_events_filter [of evs'] by simp
    ultimately show ?thesis by blast
  next
    case False
    then have "snd (handler env ev s) = s1"
      using a by (cases r) (auto simp: handler_def)
    then show ?thesis using base by metis
  qed
qed

lemma handler_frame:
  "orchestratorPromise (snd (handler env ev s)) =
     Some (fst (await_orchestrator env (console_log (ReceivedEvent ev) s)))"
  "\<not> falsy (apiKey s) \<Longrightarrow> apiKey (snd (handler env ev s)) = apiKey s"
  "configured s \<Longrightarrow> configured (snd (handler env ev s))"
proof -
  let ?s0 = "console_log (ReceivedEvent ev) s"
  obtain r s1 where a: "await_orchestrator env ?s0 = (r, s1)"
    by (cases "await_orchestrator env ?s0")
  have p: "orchestratorPromise s1 = Some r"
    using await_orchestrator_promise(1) [of env ?s0] a by simp
  have k: "\<not> falsy (apiKey s) \<Longrightarrow> apiKey s1 = apiKey s"
    using await_orchestrator_apiKey [of ?s0 env] a by simp
  have c: "configured s \<Longrightarrow> configured s1"
    using await_orchestrator_configured [of ?s0 env] a by (simp add: configured_def)
  have shape: "snd (handler env ev s) = s1 \<or>
    (\<exists>q orch. snd (handler env ev s) = for_records env q orch (Records ev) s1)"
    using a by (cases r) (auto simp: handler_def)
  show "orchestratorPromise (snd (handler env ev s)) =
     Some (fst (await_orchestrator env (console_log (ReceivedEvent ev) s)))"
    using shape p a for_records_frame by (metis fst_conv)
  show "\<not> falsy (apiKey s) \<Longrightarrow> apiKey (snd (handler env ev s)) = apiKey s"
    using shape k for_records_frame by metis
  show "configured s \<Longrightarrow> configured (snd (handler env ev s))"
    using shape c for_records_frame unfolding configured_def by metis
qed

lemma handler_inv:
  assumes "process_inv s"
  shows "process_inv (snd (handler env ev s))"
proof -
  obtain evs where e: "trace (snd (handler env ev s)) = trace s @ evs"
    "list_all well_formed_event evs"
    "filter is_fetch evs =
       (if orchestratorPromise s = None \<and> falsy (apiKey s) then [SsmSend getParameterCommand]
        else [])"
    using handler_trace by blast
  have "length (filter is_fetch (trace (snd (handler env ev s)))) \<le> 1"
    using assms e by (auto simp: process_inv_def)
  then show ?thesis
    using assms e handler_frame(1) [of env ev s] handler_frame(3) [of s env ev]
    by (simp add: process_inv_def)
qed

lemma module_init_inv: "module_init env w = Inr s \<Longrightarrow> process_inv s"
  by (auto simp: module_init_def process_inv_def configured_def split: if_splits)

lemma invocations_inv: "process_inv s \<Longrightarrow> process_inv (invocations env evs s)"
  by (induction evs arbitrary: s) (simp_all add: handler_inv)

lemma invocations_apiKey:
  "\<not> falsy (apiKey s) \<Longrightarrow>
     apiKey (invocations env evs s) = apiKey s \<and>
     filter is_fetch (trace (invocations env evs s)) = filter is_fetch (trace s)"
proof (induction evs arbitrary: s)
  case Nil
  then show ?case by simp
next
  case (Cons ev evs)
  obtain new where e: "trace (snd (handler env ev s)) = trace s @ new"
    "filter is_fetch new =
       (if orchestratorPromise s = None \<and> falsy (apiKey s) then [SsmSend getParameterCommand]
        else [])"
    using handler_trace by blast
  have k: "apiKey (snd (handler env ev s)) = apiKey s"
    using Cons.prems by (rule handler_frame(2))
  then have "\<not> falsy (apiKey (snd (handler env ev s)))" using Cons.prems by simp
  from Cons.IH [OF this] show ?case
    using k e Cons.prems by simp
qed

lemma rejected_promise_stays:
  "orchestratorPromise s = Some (Inl e) \<Longrightarrow>
     handler env ev s = (Inl e, console_log (ReceivedEvent ev) s)"
  by (simp add: handler_def await_orchestrator_def)

lemma first_failure:
  assumes "orchestratorPromise s = None"
    and "fst (initializeOrchestrator env (console_log (ReceivedEvent ev) s)) = Inl e"
  shows "fst (handler env ev s) = Inl e"
    and "orchestratorPromise (snd (handler env ev s)) = Some (Inl e)"
  using assms
  by (auto simp: handler_def await_orchestrator_def split: prod.splits sum.splits)

lemma invocations_rejected:
  "orchestratorPromise s = Some (Inl e) \<Longrightarrow>
     orchestratorPromise (invocations env evs s) = Some (Inl e) \<and>
     filter (\<lambda>x. \<not> (\<exists>l. x = ConsoleLog l)) (trace (invocations env evs s)) = filter (\<lambda>x. \<not> (\<exists>l. x = ConsoleLog l)) (trace s)"
proof (induction evs arbitrary: s)
  case Nil
  then show ?case by simp
next
  case (Cons ev evs)
  have "orchestratorPromise (snd (handler env ev s)) = Some (Inl e)"
    using Cons.prems by (simp add: rejected_promise_stays)
  from Cons.IH [OF this] show ?case
    using Cons.prems by (simp add: rejected_promise_stays)
qed

text \<open>
  Once the initialization of an invocation has failed, every later invocation of the
  process throws the same error after logging its event and does nothing else.
\<close>

lemma failed_initialization_is_cached:
  assumes "orchestratorPromise s = None"
    and "fst (initializeOrchestrator env (console_log (ReceivedEvent ev) s)) = Inl e"
  shows "fst (handler env ev s) = Inl e
       \<and> (\<forall>evs ev'.
            handler env ev' (invocations env evs (snd (handler env ev s))) =
              (Inl e, console_log (ReceivedEvent ev')
                        (invocations env evs (snd (handler env ev s)))))"
  using first_failure [OF assms] invocations_rejected rejected_promise_stays
  by blast

subsection \<open>The sample environment\<close>

lemma demo_warm:
  "await_orchestrator demo_env (console_log l fresh_state) =
     (Inr demo_orchestrator, warm_state\<lparr>trace := ConsoleLog l # trace warm_state\<rparr>)"
  by (simp add: model_defs demo_defs)

subsection \<open>Overlapping invocations keep the invariant\<close>

lemmas conc_defs =
  task_at_def set_task_def no_promise_def begin_initialization_def fresh_process_def
  three_events_def

lemma same_init_refl [simp]: "same_init s s"
  by (simp add: same_init_def)

lemma same_init_trans:
  assumes "same_init s s'" and "same_init s' s''"
  shows "same_init s s''"
proof -
  obtain evs where a: "trace s' = trace s @ evs" "list_all loop_event evs"
    using assms(1) by (auto simp: same_init_def)
  obtain evs' where b: "trace s'' = trace s' @ evs'" "list_all loop_event evs'"
    using assms(2) by (auto simp: same_init_def)
  have "trace s'' = trace s @ (evs @ evs')" "list_all loop_event (evs @ evs')"
    using a b by simp_all
  then have "\<exists>evs. trace s'' = trace s @ evs \<and> list_all loop_event evs"
    by blast
  then show ?thesis
    using assms by (simp add: same_init_def)
qed

lemma same_init_log [simp]:
  "same_init s (console_log l s)" "same_init s (console_error l s)"
  by (simp_all add: same_init_def)

lemma same_init_world [simp]: "same_init s (s\<lparr>world := w\<rparr>)"
  by (simp add: same_init_def)

lemma same_init_filters:
  assumes "same_init s s'"
  shows "filter is_fetch (trace s') = filter is_fetch (trace s)"
    and "filter is_construction (trace s') = filter is_construction (trace s)"
    and "filter is_registration (trace s') = filter is_registration (trace s)"
  using assms loop_events_filter by (auto simp: same_init_def)

lemma vars_ok_same_init:
  assumes "same_init s s'" and "vars_ok env ini s"
  shows "vars_ok env ini s'"
  using assms(2) same_init_filters [OF assms(1)] assms(1)
  by (simp add: vars_ok_def same_init_def settled_ok_def)

lemma tasks_ok_update:
  assumes "tasks_ok ini pr ts"
    and "pr = None \<and> ini = None \<longrightarrow> not_started t"
    and "pr = None \<longrightarrow> awaits_initialization t"
    and "\<forall>orch. task_orchestrator t = Some orch \<longrightarrow> pr = Some (Inr orch)"
  shows "tasks_ok ini pr (ts[i := t])"
proof -
  have sub: "set (ts[i := t]) \<subseteq> insert t (set ts)"
    by (rule set_update_subset_insert)
  have all: "list_all P (ts[i := t])" if "list_all P ts" "P t" for P
    using that sub by (auto simp: list_all_iff)
  have a: "pr = None \<and> ini = None \<longrightarrow> list_all not_started (ts[i := t])"
    using assms(1,2) all [of not_started] by (simp add: tasks_ok_def)
  have b: "pr = None \<longrightarrow> list_all awaits_initialization (ts[i := t])"
    using assms(1,3) all [of awaits_initialization] by (simp add: tasks_ok_def)
  have c: "pr = Some (Inr orch)"
    if "x \<in> set (ts[i := t])" "task_orchestrator x = Some orch" for x orch
  proof (cases "x = t")
    case True
    then show ?thesis using that assms(4) by simp
  next
    case False
    then have "x \<in> set ts" using that(1) sub by blast
    then show ?thesis using that(2) assms(1) by (simp add: tasks_ok_def)
  qed
  show ?thesis
    unfolding tasks_ok_def using a b c by blast
qed

lemma begin_record_same_init: "same_init s (snd (begin_record env r s))"
  by (simp add: begin_record_def same_init_def split: sum.splits prod.splits)

lemma routed_same_init: "same_init s (snd (routed q resp s))"
  by (simp add: routed_def same_init_def Let_def)

lemma sent_same_init: "same_init s (sent response s)"
  by (simp add: sent_def)

lemma key_settled_same_init: "same_init s (snd (key_settled answer s))"
  by (simp add: key_settled_def split: sum.splits)

lemma continue_loop_same_init:
  "same_init s (snd (continue_loop env ev q orch rs s))"
proof (induction rs arbitrary: s)
  case Nil
  then show ?case by simp
next
  case (Cons r rs)
  obtain res s1 where b: "begin_record env r s = (res, s1)"
    by (cases "begin_record env r s")
  have s1: "same_init s s1"
    using begin_record_same_init [of s env r] b by simp
  show ?case
  proof (cases res)
    case (Inl e)
    have "same_init s1 (console_error (ErrorProcessingRecord e) s1)" by simp
    with s1 have "same_init s (console_error (ErrorProcessingRecord e) s1)"
      by (rule same_init_trans)
    moreover have "same_init (console_error (ErrorProcessingRecord e) s1)
        (snd (continue_loop env ev q orch rs (console_error (ErrorProcessingRecord e) s1)))"
      by (rule Cons.IH)
    ultimately have "same_init s
        (snd (continue_loop env ev q orch rs (console_error (ErrorProcessingRecord e) s1)))"
      by (rule same_init_trans)
    then show ?thesis
      using b Inl by simp
  next
    case (Inr args)
    then show ?thesis using b s1 by (cases args) simp
  qed
qed

lemma continue_loop_task:
  "task_orchestrator (fst (continue_loop env ev q orch rs s)) = Some orch' \<Longrightarrow> orch' = orch"
proof (induction rs arbitrary: s)
  case Nil
  then show ?case by simp
next
  case (Cons r rs)
  obtain res s1 where b: "begin_record env r s = (res, s1)"
    by (cases "begin_record env r s")
  show ?case
  proof (cases res)
    case (Inl e)
    then have "task_orchestrator
        (fst (continue_loop env ev q orch rs (console_error (ErrorProcessingRecord e) s1))) =
        Some orch'"
      using b Cons.prems by simp
    then show ?thesis by (rule Cons.IH)
  next
    case (Inr args)
    then show ?thesis using b Cons.prems by (cases args) simp
  qed
qed

lemma not_started_awaits: "list_all not_started ts \<Longrightarrow> list_all awaits_initialization ts"
proof -
  have "awaits_initialization t" if "not_started t" for t
    using that by (cases t) simp_all
  then show "list_all not_started ts \<Longrightarrow> list_all awaits_initialization ts"
    by (auto simp: list_all_iff)
qed

lemma awaits_no_orchestrator: "awaits_initialization t \<Longrightarrow> task_orchestrator t = None"
  by (cases t) simp_all

lemma task_at_set: "task_at p i = Some t \<Longrightarrow> t \<in> set (tasks p)"
  by (auto simp: task_at_def split: if_splits)

lemma set_task_fields [simp]:
  "vars (set_task i ts p) = snd ts"
  "initializing (set_task i ts p) = initializing p"
  "tasks (set_task i ts p) = (tasks p)[i := fst ts]"
  by (simp_all add: set_task_def)

lemma single_flight_set_task:
  assumes "single_flight env p"
    and "same_init (vars p) s'"
    and "orchestratorPromise (vars p) = None \<longrightarrow> awaits_initialization t"
    and "no_promise p \<longrightarrow> not_started t"
    and "\<forall>orch. task_orchestrator t = Some orch \<longrightarrow> orchestratorPromise (vars p) = Some (Inr orch)"
  shows "single_flight env (set_task i (t, s') p)"
proof -
  have v: "vars_ok env (initializing p) s'"
    using assms(1,2) vars_ok_same_init by (auto simp: single_flight_def)
  have pr: "orchestratorPromise s' = orchestratorPromise (vars p)"
    using assms(2) by (simp add: same_init_def)
  have "tasks_ok (initializing p) (orchestratorPromise (vars p)) ((tasks p)[i := t])"
    using assms(1,3,4,5) by (intro tasks_ok_update) (simp_all add: single_flight_def no_promise_def)
  then show ?thesis
    using v pr by (simp add: single_flight_def)
qed

lemma step_start:
  assumes "single_flight env p" and "step env (Start i) p = Some p'"
  shows "single_flight env p'"
proof -
  obtain ev where ev: "task_at p i = Some (NotStarted ev)"
    using assms(2) by (auto split: option.splits task.splits)
  let ?s1 = "console_log (ReceivedEvent ev) (vars p)"
  let ?p1 = "p\<lparr>vars := ?s1\<rparr>"
  have np: "no_promise ?p1 = no_promise p"
    by (simp add: no_promise_def)
  show ?thesis
  proof (cases "no_promise p")
    case True
    then have facts: "orchestratorPromise (vars p) = None" "initializing p = None"
      "apiKey (vars p) = None" "orchestrator (vars p) = None"
      "filter is_fetch (trace (vars p)) = []"
      "filter is_construction (trace (vars p)) = []"
      "filter is_registration (trace (vars p)) = []"
      "list_all not_started (tasks p)"
      using assms(1) by (simp_all add: no_promise_def single_flight_def vars_ok_def tasks_ok_def)
    let ?s2 = "emit (SsmSend getParameterCommand) ?s1"
    have p': "vars p' = ?s2" "initializing p' = Some AwaitingParameter"
      "tasks p' = (tasks p)[i := AwaitingOrchestrator ev]"
      using assms(2) ev True np facts(3)
      by (auto simp: begin_initialization_def falsy_def set_task_def Let_def)
    have v: "vars_ok env (Some AwaitingParameter) ?s2"
      using facts by (simp add: vars_ok_def)
    have "tasks_ok (Some AwaitingParameter) None (tasks p)"
      using facts(8) not_started_awaits awaits_no_orchestrator
      by (auto simp: tasks_ok_def list_all_iff)
    then have "tasks_ok (Some AwaitingParameter) None ((tasks p)[i := AwaitingOrchestrator ev])"
      by (rule tasks_ok_update) simp_all
    then show ?thesis
      using v facts(1) by (simp add: p' single_flight_def)
  next
    case False
    then have p': "p' = set_task i (AwaitingOrchestrator ev, ?s1) p"
      using assms(2) ev np by (simp add: set_task_def Let_def)
    show ?thesis
      unfolding p'
      using assms(1) False by (intro single_flight_set_task) simp_all
  qed
qed

lemma step_parameter_answer:
  assumes "single_flight env p" and "step env ParameterAnswer p = Some p'"
  shows "single_flight env p'"
proof -
  have ini: "initializing p = Some AwaitingParameter"
    using assms(2) by (auto split: option.splits init_stage.splits)
  obtain answer w where a: "ssm_send env getParameterCommand (world (vars p)) = (answer, w)"
    by (cases "ssm_send env getParameterCommand (world (vars p))")
  obtain r s' where k: "key_settled answer ((vars p)\<lparr>world := w\<rparr>) = (r, s')"
    by (cases "key_settled answer ((vars p)\<lparr>world := w\<rparr>)")
  have p': "vars p' = s'" "initializing p' = Some (KeySettled r)" "tasks p' = tasks p"
    using assms(2) ini a k by auto
  have "same_init ((vars p)\<lparr>world := w\<rparr>) s'"
    using key_settled_same_init [of "(vars p)\<lparr>world := w\<rparr>" answer] k by simp
  then have same: "same_init (vars p) s'"
    by (rule same_init_trans [OF same_init_world])
  have "vars_ok env (initializing p) s'"
    using assms(1) same vars_ok_same_init by (auto simp: single_flight_def)
  then have v: "vars_ok env (Some (KeySettled r)) s'"
    using ini by (simp add: vars_ok_def)
  have "orchestratorPromise s' = orchestratorPromise (vars p)"
    using same by (simp add: same_init_def)
  moreover have "tasks_ok (Some (KeySettled r)) (orchestratorPromise (vars p)) (tasks p)"
    using assms(1) ini by (simp add: single_flight_def tasks_ok_def)
  ultimately show ?thesis
    using v by (simp add: single_flight_def p')
qed

lemma key_awaited_first:
  assumes "orchestrator s = None"
    and "filter is_construction (trace s) = []"
    and "filter is_registration (trace s) = []"
  shows "settled_ok env (fst (key_awaited env r s)) (trace (snd (key_awaited env r s)))"
    and "filter is_fetch (trace (snd (key_awaited env r s))) = filter is_fetch (trace s)"
proof -
  show "settled_ok env (fst (key_awaited env r s)) (trace (snd (key_awaited env r s)))"
  proof (cases r)
    case (Inl e)
    have "[] = take 0 (registrations env)" by simp
    then have "\<exists>n. [] = take n (registrations env)" by (rule exI)
    then show ?thesis
      using Inl assms by (simp add: key_awaited_def settled_ok_def)
  next
    case (Inr k)
    let ?s = "s\<lparr>apiKey := Some k\<rparr>"
    let ?opts = "orchestrator_options env (Some k)"
    have ka: "key_awaited env r s = construct_orchestrator env ?s"
      using Inr assms(1) by (simp add: key_awaited_def ensure_orchestrator_def)
    obtain n where tr: "trace (snd (construct_orchestrator env ?s)) =
        trace s @ NewOrchestrator ?opts # take n (registrations env)"
      using construct_orchestrator_trace [of env ?s] by auto
    have "is_registration x \<and> \<not> is_construction x" if "x \<in> set (take n (registrations env))" for x
    proof -
      have "x \<in> set (registrations env)" using that by (rule in_set_takeD)
      then show ?thesis by (auto simp: registrations_def)
    qed
    then have regs: "filter is_registration (take n (registrations env)) = take n (registrations env)"
      "filter is_construction (take n (registrations env)) = []"
      by (simp_all add: filter_id_conv filter_empty_conv)
    have c: "filter is_construction (trace (snd (construct_orchestrator env ?s))) =
        [NewOrchestrator ?opts]"
      using tr assms(2) regs by simp
    have g: "filter is_registration (trace (snd (construct_orchestrator env ?s))) =
        take n (registrations env)"
      using tr assms(3) regs by simp
    have full: "filter is_construction (trace (snd (construct_orchestrator env ?s))) =
          [NewOrchestrator (options orch)] \<and>
        filter is_registration (trace (snd (construct_orchestrator env ?s))) = registrations env"
      if "fst (construct_orchestrator env ?s) = Inr orch" for orch
    proof -
      have "options orch = ?opts"
        using construct_orchestrator_result(1) [OF that] by simp
      moreover have "trace (snd (construct_orchestrator env ?s)) =
          trace s @ NewOrchestrator ?opts # registrations env"
        using construct_orchestrator_result(4) [OF that] by simp
      moreover have "filter is_registration (registrations env) = registrations env"
        "filter is_construction (registrations env) = []"
        by (simp_all add: registrations_def)
      ultimately show ?thesis
        using assms(2,3) by simp
    qed
    have "\<exists>m. filter is_registration (trace (snd (construct_orchestrator env ?s))) =
        take m (registrations env)"
      using g by blast
    moreover have "length (filter is_construction (trace (snd (construct_orchestrator env ?s)))) \<le> 1"
      using c by simp
    ultimately show ?thesis
      unfolding ka settled_ok_def using full by blast
  qed
  show "filter is_fetch (trace (snd (key_awaited env r s))) = filter is_fetch (trace s)"
    using key_awaited_trace [of env r s] by auto
qed

lemma step_key_awaited:
  assumes "single_flight env p" and "step env KeyAwaited p = Some p'"
  shows "single_flight env p'"
proof -
  obtain r where ini: "initializing p = Some (KeySettled r)"
    using assms(2) by (auto split: option.splits init_stage.splits)
  then have facts: "orchestratorPromise (vars p) = None"
    "orchestrator (vars p) = None"
    "filter is_fetch (trace (vars p)) = [SsmSend getParameterCommand]"
    "filter is_construction (trace (vars p)) = []"
    "filter is_registration (trace (vars p)) = []"
    "list_all awaits_initialization (tasks p)"
    using assms(1) by (simp_all add: single_flight_def vars_ok_def tasks_ok_def)
  obtain res s' where k: "key_awaited env r (vars p) = (res, s')"
    by (cases "key_awaited env r (vars p)")
  have p': "vars p' = s'\<lparr>orchestratorPromise := Some res\<rparr>" "initializing p' = None"
    "tasks p' = tasks p"
    using assms(2) ini k by auto
  have "settled_ok env res (trace s')" "filter is_fetch (trace s') = [SsmSend getParameterCommand]"
    using key_awaited_first [OF facts(2,4,5), of env r] k facts(3) by simp_all
  then have v: "vars_ok env None (s'\<lparr>orchestratorPromise := Some res\<rparr>)"
    by (simp add: vars_ok_def)
  have "tasks_ok None (Some res) (tasks p)"
    using facts(6) awaits_no_orchestrator by (auto simp: tasks_ok_def list_all_iff)
  then show ?thesis
    using v by (simp add: single_flight_def p')
qed

lemma continue_loop_single_flight:
  assumes "single_flight env p"
    and "orchestratorPromise (vars p) = Some (Inr orch)"
    and "same_init (vars p) s"
  shows "single_flight env (set_task i (continue_loop env ev q orch rs s) p)"
proof -
  obtain t s' where c: "continue_loop env ev q orch rs s = (t, s')"
    by (cases "continue_loop env ev q orch rs s")
  have "same_init s s'"
    using continue_loop_same_init [of s env ev q orch rs] c by simp
  with assms(3) have same: "same_init (vars p) s'"
    by (rule same_init_trans)
  have orch: "\<forall>orch'. task_orchestrator t = Some orch' \<longrightarrow>
      orchestratorPromise (vars p) = Some (Inr orch')"
    using continue_loop_task [of env ev q orch rs s] c assms(2) by auto
  show ?thesis
    unfolding c
    using assms(1) same orch assms(2)
    by (intro single_flight_set_task) (simp_all add: no_promise_def)
qed

lemma task_promise:
  assumes "single_flight env p" and "task_at p i = Some t" and "task_orchestrator t = Some orch"
  shows "orchestratorPromise (vars p) = Some (Inr orch)"
  using assms task_at_set [OF assms(2)] by (auto simp: single_flight_def tasks_ok_def)

lemma step_orchestrator_awaited:
  assumes "single_flight env p" and "step env (OrchestratorAwaited i) p = Some p'"
  shows "single_flight env p'"
proof -
  obtain ev where ev: "task_at p i = Some (AwaitingOrchestrator ev)"
    using assms(2) by (auto split: option.splits task.splits)
  obtain res where res: "orchestratorPromise (vars p) = Some res"
    using assms(2) ev by (auto split: option.splits)
  show ?thesis
  proof (cases res)
    case (Inl e)
    then have p': "p' = set_task i (Finished (Inl e), vars p) p"
      using assms(2) ev res by simp
    show ?thesis
      unfolding p' using assms(1) res
      by (intro single_flight_set_task) (simp_all add: no_promise_def)
  next
    case (Inr orch)
    show ?thesis
    proof (cases "falsy (QUEUE_URL env)")
      case True
      then have p': "p' = set_task i
          (Finished (Inl (Error ''QUEUE_URL environment variable is not set'')), vars p) p"
        using assms(2) ev res Inr by simp
      show ?thesis
        unfolding p' using assms(1) res
        by (intro single_flight_set_task) (simp_all add: no_promise_def)
    next
      case False
      then have p': "p' = set_task i
          (continue_loop env ev (the (QUEUE_URL env)) orch (Records ev) (vars p)) p"
        using assms(2) ev res Inr by simp
      show ?thesis
        unfolding p' using assms(1) res Inr
        by (intro continue_loop_single_flight) simp_all
    qed
  qed
qed

lemma step_route_answer:
  assumes "single_flight env p" and "step env (RouteAnswer i) p = Some p'"
  shows "single_flight env p'"
proof -
  obtain ev q orch msg sid rs where t: "task_at p i = Some (AwaitingRoute ev q orch msg sid rs)"
    using assms(2) by (auto split: option.splits task.splits)
  have pr: "orchestratorPromise (vars p) = Some (Inr orch)"
    using task_promise [OF assms(1) t] by simp
  obtain res w where r: "routeRequest env orch msg sid sid (world (vars p)) = (res, w)"
    by (cases "routeRequest env orch msg sid sid (world (vars p))")
  show ?thesis
  proof (cases res)
    case (Inl e)
    let ?s = "console_error (ErrorProcessingRecord e) ((vars p)\<lparr>world := w\<rparr>)"
    have p': "p' = set_task i (continue_loop env ev q orch rs ?s) p"
      using assms(2) t r Inl by simp
    have "same_init (vars p) ?s"
      by (rule same_init_trans [OF same_init_world [of "vars p" w]]) simp
    then show ?thesis
      unfolding p' using assms(1) pr by (intro continue_loop_single_flight)
  next
    case (Inr resp)
    obtain command s' where c: "routed q resp ((vars p)\<lparr>world := w\<rparr>) = (command, s')"
      by (cases "routed q resp ((vars p)\<lparr>world := w\<rparr>)")
    have p': "p' = set_task i (AwaitingSend ev q orch command rs, s') p"
      using assms(2) t r Inr c by simp
    have "same_init ((vars p)\<lparr>world := w\<rparr>) s'"
      using routed_same_init [of "(vars p)\<lparr>world := w\<rparr>" q resp] c by simp
    then have "same_init (vars p) s'"
      by (rule same_init_trans [OF same_init_world])
    then show ?thesis
      unfolding p' using assms(1) pr
      by (intro single_flight_set_task) (simp_all add: no_promise_def)
  qed
qed

lemma step_send_answer:
  assumes "single_flight env p" and "step env (SendAnswer i) p = Some p'"
  shows "single_flight env p'"
proof -
  obtain ev q orch command rs where t: "task_at p i = Some (AwaitingSend ev q orch command rs)"
    using assms(2) by (auto split: option.splits task.splits)
  have pr: "orchestratorPromise (vars p) = Some (Inr orch)"
    using task_promise [OF assms(1) t] by simp
  obtain res w where r: "sqs_send env command (world (vars p)) = (res, w)"
    by (cases "sqs_send env command (world (vars p))")
  show ?thesis
  proof (cases res)
    case (Inl e)
    let ?s = "console_error (ErrorProcessingRecord e) ((vars p)\<lparr>world := w\<rparr>)"
    have p': "p' = set_task i (continue_loop env ev q orch rs ?s) p"
      using assms(2) t r Inl by simp
    have "same_init (vars p) ?s"
      by (rule same_init_trans [OF same_init_world [of "vars p" w]]) simp
    then show ?thesis
      unfolding p' using assms(1) pr by (intro continue_loop_single_flight)
  next
    case (Inr response)
    let ?s = "sent response ((vars p)\<lparr>world := w\<rparr>)"
    have p': "p' = set_task i (continue_loop env ev q orch rs ?s) p"
      using assms(2) t r Inr by simp
    have "same_init (vars p) ?s"
      by (rule same_init_trans [OF same_init_world [of "vars p" w]]) (rule sent_same_init)
    then show ?thesis
      unfolding p' using assms(1) pr by (intro continue_loop_single_flight)
  qed
qed

lemma step_single_flight:
  assumes "single_flight env p" and "step env t p = Some p'"
  shows "single_flight env p'"
  using assms
  by (cases t)
     (auto intro: step_start step_parameter_answer step_key_awaited step_orchestrator_awaited
        step_route_answer step_send_answer)

lemma step_length:
  "step env t p = Some p' \<Longrightarrow> length (tasks p') = length (tasks p)"
  by (cases t)
     (auto simp: Let_def begin_initialization_def split: option.splits task.splits
        init_stage.splits sum.splits prod.splits if_splits)

lemma run_single_flight:
  "single_flight env p \<Longrightarrow> run env ts p = Some p' \<Longrightarrow> single_flight env p'"
proof (induction ts arbitrary: p)
  case Nil
  then show ?case by simp
next
  case (Cons t ts)
  then obtain p1 where s: "step env t p = Some p1" and r: "run env ts p1 = Some p'"
    by (auto split: option.splits)
  have "single_flight env p1"
    using Cons.prems(1) s by (rule step_single_flight)
  then show ?case using r by (rule Cons.IH)
qed

lemma run_length:
  "run env ts p = Some p' \<Longrightarrow> length (tasks p') = length (tasks p)"
proof (induction ts arbitrary: p)
  case Nil
  then show ?case by simp
next
  case (Cons t ts)
  then obtain p1 where s: "step env t p = Some p1" and r: "run env ts p1 = Some p'"
    by (auto split: option.splits)
  show ?case
    using Cons.IH [OF r] step_length [OF s] by simp
qed

lemma fresh_single_flight: "single_flight env (fresh_process w evs)"
  by (simp add: single_flight_def vars_ok_def tasks_ok_def fresh_process_def list_all_iff)

lemma overlapping_fetches:
  assumes "run env schedule (fresh_process w evs) = Some p"
  shows "length (filter is_fetch (trace (vars p))) \<le> 1"
proof -
  have "single_flight env p"
    using fresh_single_flight assms by (rule run_single_flight)
  then have "vars_ok env (initializing p) (vars p)"
    by (simp add: single_flight_def)
  then show ?thesis
    by (cases "orchestratorPromise (vars p) = None \<and> initializing p = None")
       (auto simp: vars_ok_def)
qed

subsection \<open>An invocation on its own\<close>

lemma set_task_alone: "set_task 0 (t, s') (alone s ini x) = alone s' ini t"
  by (simp add: set_task_def alone_def)

lemma task_at_alone: "task_at (alone s ini t) 0 = Some t"
  by (simp add: task_at_def alone_def)

lemma alone_fields:
  "vars (alone s ini t) = s" "initializing (alone s ini t) = ini" "tasks (alone s ini t) = [t]"
  by (simp_all add: alone_def)

lemma route_answer_alone:
  assumes "routeRequest env orch msg sid sid (world s) = (ans, w)"
  shows "step env (RouteAnswer 0) (alone s ini (AwaitingRoute ev q orch msg sid rs)) =
    Some (case ans of
            Inl e \<Rightarrow>
              (case continue_loop env ev q orch rs
                      (console_error (ErrorProcessingRecord e) (s\<lparr>world := w\<rparr>)) of
                 (t', s') \<Rightarrow> alone s' ini t')
          | Inr resp \<Rightarrow>
              (case routed q resp (s\<lparr>world := w\<rparr>) of
                 (command, s') \<Rightarrow> alone s' ini (AwaitingSend ev q orch command rs)))"
proof (cases ans)
  case (Inl e)
  obtain t' s' where c: "continue_loop env ev q orch rs
      (console_error (ErrorProcessingRecord e) (s\<lparr>world := w\<rparr>)) = (t', s')"
    by (cases "continue_loop env ev q orch rs
      (console_error (ErrorProcessingRecord e) (s\<lparr>world := w\<rparr>))")
  show ?thesis
    using assms Inl c by (simp add: task_at_alone alone_fields set_task_alone)
next
  case (Inr resp)
  obtain command s' where c: "routed q resp (s\<lparr>world := w\<rparr>) = (command, s')"
    by (cases "routed q resp (s\<lparr>world := w\<rparr>)")
  show ?thesis
    using assms Inr c by (simp add: task_at_alone alone_fields set_task_alone)
qed

lemma send_answer_alone:
  assumes "sqs_send env command (world s) = (ans, w)"
  shows "step env (SendAnswer 0) (alone s ini (AwaitingSend ev q orch command rs)) =
    Some (case continue_loop env ev q orch rs
                 (case ans of
                    Inl e \<Rightarrow> console_error (ErrorProcessingRecord e) (s\<lparr>world := w\<rparr>)
                  | Inr response \<Rightarrow> sent response (s\<lparr>world := w\<rparr>)) of
            (t', s') \<Rightarrow> alone s' ini t')"
proof (cases ans)
  case (Inl e)
  obtain t' s' where c: "continue_loop env ev q orch rs
      (console_error (ErrorProcessingRecord e) (s\<lparr>world := w\<rparr>)) = (t', s')"
    by (cases "continue_loop env ev q orch rs
      (console_error (ErrorProcessingRecord e) (s\<lparr>world := w\<rparr>))")
  show ?thesis
    using assms Inl c by (simp add: task_at_alone alone_fields set_task_alone)
next
  case (Inr response)
  obtain t' s' where c: "continue_loop env ev q orch rs (sent response (s\<lparr>world := w\<rparr>)) = (t', s')"
    by (cases "continue_loop env ev q orch rs (sent response (s\<lparr>world := w\<rparr>))")
  show ?thesis
    using assms Inr c by (simp add: task_at_alone alone_fields set_task_alone)
qed

lemma process_record_cases:
  "process_record env q orch r s =
     (case begin_record env r s of
        (Inl e, sb) \<Rightarrow> console_error (ErrorProcessingRecord e) sb
      | (Inr (msg, sid), sb) \<Rightarrow>
          (case routeRequest env orch msg sid sid (world sb) of
             (Inl e, w) \<Rightarrow> console_error (ErrorProcessingRecord e) (sb\<lparr>world := w\<rparr>)
           | (Inr resp, w) \<Rightarrow>
               (case routed q resp (sb\<lparr>world := w\<rparr>) of
                  (command, s2) \<Rightarrow>
                    (case sqs_send env command (world s2) of
                       (Inl e, w') \<Rightarrow>
                         console_error (ErrorProcessingRecord e) (s2\<lparr>world := w'\<rparr>)
                     | (Inr response, w') \<Rightarrow> sent response (s2\<lparr>world := w'\<rparr>)))))"
proof -
  obtain res sb where b: "begin_record env r s = (res, sb)"
    by (cases "begin_record env r s")
  show ?thesis
  proof (cases res)
    case (Inl e)
    then show ?thesis using b by (simp add: process_record_def try_record_def)
  next
    case (Inr args)
    obtain msg sid where args: "args = (msg, sid)" by (cases args)
    obtain ans w where route: "routeRequest env orch msg sid sid (world sb) = (ans, w)"
      by (cases "routeRequest env orch msg sid sid (world sb)")
    show ?thesis
    proof (cases ans)
      case (Inl e)
      then show ?thesis
        using b \<open>res = Inr args\<close> args route by (simp add: process_record_def try_record_def)
    next
      case (Inr resp)
      obtain command s2 where rt: "routed q resp (sb\<lparr>world := w\<rparr>) = (command, s2)"
        by (cases "routed q resp (sb\<lparr>world := w\<rparr>)")
      obtain ans' w' where send: "sqs_send env command (world s2) = (ans', w')"
        by (cases "sqs_send env command (world s2)")
      show ?thesis
        using b \<open>res = Inr args\<close> args route Inr rt send
        by (cases ans') (simp_all add: process_record_def try_record_def)
    qed
  qed
qed

lemma loop_alone:
  assumes "continue_loop env ev q orch rs s = (t, s1)"
  shows "\<exists>schedule. run env schedule (alone s1 None t) =
           Some (alone (for_records env q orch rs s) None
                   (Finished (Inr \<lparr>summary_message =
                      ''Processed '' @ string_of_nat (length (Records ev)) @ '' messages''\<rparr>)))"
  using assms
proof (induction rs arbitrary: s t s1)
  case Nil
  then have "t = Finished (Inr \<lparr>summary_message =
                      ''Processed '' @ string_of_nat (length (Records ev)) @ '' messages''\<rparr>)"
    "s1 = s"
    by simp_all
  then have r: "run env [] (alone s1 None t) =
           Some (alone (for_records env q orch [] s) None
                   (Finished (Inr \<lparr>summary_message =
                      ''Processed '' @ string_of_nat (length (Records ev)) @ '' messages''\<rparr>)))"
    by (simp only: run.simps for_records.simps)
  show ?case by (rule exI [where x = "[]"]) (rule r)
next
  case (Cons r rs)
  let ?done = "Finished (Inr \<lparr>summary_message =
                      ''Processed '' @ string_of_nat (length (Records ev)) @ '' messages''\<rparr>)"
  obtain res sb where b: "begin_record env r s = (res, sb)"
    by (cases "begin_record env r s")
  show ?case
  proof (cases res)
    case (Inl e)
    have c: "continue_loop env ev q orch rs (console_error (ErrorProcessingRecord e) sb) = (t, s1)"
      using Cons.prems b Inl by simp
    have "process_record env q orch r s = console_error (ErrorProcessingRecord e) sb"
      using b Inl by (simp add: process_record_cases)
    then have "for_records env q orch (r # rs) s =
        for_records env q orch rs (console_error (ErrorProcessingRecord e) sb)"
      by (simp only: for_records.simps)
    then show ?thesis
      using Cons.IH [OF c] by (simp only:)
  next
    case (Inr args)
    obtain msg sid where args: "args = (msg, sid)" by (cases args)
    have t: "t = AwaitingRoute ev q orch msg sid rs" and s1: "s1 = sb"
      using Cons.prems b Inr args by simp_all
    obtain ans w where route: "routeRequest env orch msg sid sid (world sb) = (ans, w)"
      by (cases "routeRequest env orch msg sid sid (world sb)")
    show ?thesis
    proof (cases ans)
      case (Inl e)
      let ?s = "console_error (ErrorProcessingRecord e) (sb\<lparr>world := w\<rparr>)"
      obtain t' s' where c: "continue_loop env ev q orch rs ?s = (t', s')"
        by (cases "continue_loop env ev q orch rs ?s")
      have st: "step env (RouteAnswer 0) (alone s1 None t) = Some (alone s' None t')"
        unfolding t s1 using route_answer_alone [OF route, where ini = None and ev = ev and q = q and rs = rs] Inl c by simp
      have pr: "process_record env q orch r s = ?s"
        using b Inr args route Inl by (simp add: process_record_cases)
      obtain sched where "run env sched (alone s' None t') =
          Some (alone (for_records env q orch rs ?s) None ?done)"
        using Cons.IH [OF c] ..
      then have r: "run env (RouteAnswer 0 # sched) (alone s1 None t) =
          Some (alone (for_records env q orch (r # rs) s) None ?done)"
        by (simp only: run.simps st option.case for_records.simps pr)
      show ?thesis by (rule exI [where x = "RouteAnswer 0 # sched"]) (rule r)
    next
      case (Inr resp)
      obtain command s2 where rt: "routed q resp (sb\<lparr>world := w\<rparr>) = (command, s2)"
        by (cases "routed q resp (sb\<lparr>world := w\<rparr>)")
      have st1: "step env (RouteAnswer 0) (alone s1 None t) =
          Some (alone s2 None (AwaitingSend ev q orch command rs))"
        unfolding t s1 using route_answer_alone [OF route, where ini = None and ev = ev and q = q and rs = rs] Inr rt by simp
      obtain ans' w' where send: "sqs_send env command (world s2) = (ans', w')"
        by (cases "sqs_send env command (world s2)")
      let ?s = "case ans' of Inl e \<Rightarrow> console_error (ErrorProcessingRecord e) (s2\<lparr>world := w'\<rparr>)
                 | Inr response \<Rightarrow> sent response (s2\<lparr>world := w'\<rparr>)"
      obtain t' s' where c: "continue_loop env ev q orch rs ?s = (t', s')"
        by (cases "continue_loop env ev q orch rs ?s")
      have st2: "step env (SendAnswer 0) (alone s2 None (AwaitingSend ev q orch command rs)) =
          Some (alone s' None t')"
        using send_answer_alone [OF send, where ini = None and ev = ev and q = q and orch = orch and rs = rs] c by simp
      have pr: "process_record env q orch r s = ?s"
        using b \<open>res = Inr args\<close> args route Inr rt send
        by (cases ans') (simp_all add: process_record_cases)
      obtain sched where "run env sched (alone s' None t') =
          Some (alone (for_records env q orch rs ?s) None ?done)"
        using Cons.IH [OF c] ..
      then have r: "run env (RouteAnswer 0 # SendAnswer 0 # sched) (alone s1 None t) =
          Some (alone (for_records env q orch (r # rs) s) None ?done)"
        by (simp only: run.simps st1 st2 option.case for_records.simps pr)
      show ?thesis by (rule exI [where x = "RouteAnswer 0 # SendAnswer 0 # sched"]) (rule r)
    qed
  qed
qed

lemma run_append:
  "run env (a @ b) p = (case run env a p of None \<Rightarrow> None | Some p' \<Rightarrow> run env b p')"
  by (induction a arbitrary: p) (simp_all split: option.splits)

lemma start_alone:
  "step env (Start 0) (alone s None (NotStarted ev)) =
     Some (let s0 = console_log (ReceivedEvent ev) s
           in if orchestratorPromise s \<noteq> None then alone s0 None (AwaitingOrchestrator ev)
              else if falsy (apiKey s)
                   then alone (emit (SsmSend getParameterCommand) s0) (Some AwaitingParameter)
                          (AwaitingOrchestrator ev)
                   else (case ensure_orchestrator env s0 of
                           (r, s') \<Rightarrow>
                             alone (s'\<lparr>orchestratorPromise := Some r\<rparr>) None
                               (AwaitingOrchestrator ev)))"
proof -
  obtain r s' where e: "ensure_orchestrator env (console_log (ReceivedEvent ev) s) = (r, s')"
    by (cases "ensure_orchestrator env (console_log (ReceivedEvent ev) s)")
  show ?thesis
    using e
    by (auto simp: task_at_def no_promise_def begin_initialization_def Let_def
          set_task_def alone_def)
qed

lemma parameter_answer_alone:
  "step env ParameterAnswer (alone (emit (SsmSend getParameterCommand) s) (Some AwaitingParameter) t) =
     Some (case getApiKeyFromSSM env s of (r, s') \<Rightarrow> alone s' (Some (KeySettled r)) t)"
proof -
  obtain answer w where a: "ssm_send env getParameterCommand (world s) = (answer, w)"
    by (cases "ssm_send env getParameterCommand (world s)")
  obtain r s' where k: "key_settled answer ((emit (SsmSend getParameterCommand) s)\<lparr>world := w\<rparr>) = (r, s')"
    by (cases "key_settled answer ((emit (SsmSend getParameterCommand) s)\<lparr>world := w\<rparr>)")
  show ?thesis
    using a k by (simp add: getApiKeyFromSSM_def Let_def alone_def)
qed

lemma key_awaited_alone:
  "step env KeyAwaited (alone s (Some (KeySettled r)) t) =
     Some (case key_awaited env r s of
             (res, s') \<Rightarrow> alone (s'\<lparr>orchestratorPromise := Some res\<rparr>) None t)"
proof -
  obtain res s' where k: "key_awaited env r s = (res, s')"
    by (cases "key_awaited env r s")
  show ?thesis
    using k by (simp add: alone_def)
qed

lemma orchestrator_awaited_alone:
  assumes "orchestratorPromise s = Some r"
  shows "step env (OrchestratorAwaited 0) (alone s None (AwaitingOrchestrator ev)) =
     Some (case r of
             Inl e \<Rightarrow> alone s None (Finished (Inl e))
           | Inr orch \<Rightarrow>
               if falsy (QUEUE_URL env)
               then alone s None
                      (Finished (Inl (Error ''QUEUE_URL environment variable is not set'')))
               else (case continue_loop env ev (the (QUEUE_URL env)) orch (Records ev) s of
                       (t, s') \<Rightarrow> alone s' None t))"
proof (cases r)
  case (Inl e)
  then show ?thesis
    using assms by (simp add: task_at_alone alone_fields set_task_alone)
next
  case (Inr orch)
  obtain t s' where c: "continue_loop env ev (the (QUEUE_URL env)) orch (Records ev) s = (t, s')"
    by (cases "continue_loop env ev (the (QUEUE_URL env)) orch (Records ev) s")
  show ?thesis
    using assms Inr c by (simp add: task_at_alone alone_fields set_task_alone)
qed

lemma initialization_alone:
  "\<exists>schedule. run env schedule (alone s None (NotStarted ev)) =
     Some (alone (snd (await_orchestrator env (console_log (ReceivedEvent ev) s))) None
             (AwaitingOrchestrator ev))"
proof -
  let ?s0 = "console_log (ReceivedEvent ev) s"
  show ?thesis
  proof (cases "orchestratorPromise s")
    case (Some r)
    then have "step env (Start 0) (alone s None (NotStarted ev)) =
        Some (alone ?s0 None (AwaitingOrchestrator ev))"
      by (subst start_alone) (simp add: Let_def)
    moreover have "snd (await_orchestrator env ?s0) = ?s0"
      using Some by (simp add: await_orchestrator_def)
    ultimately have r: "run env [Start 0] (alone s None (NotStarted ev)) =
        Some (alone (snd (await_orchestrator env ?s0)) None (AwaitingOrchestrator ev))"
      by (simp only: run.simps option.case)
    show ?thesis by (rule exI [where x = "[Start 0]"]) (rule r)
  next
    case None
    show ?thesis
    proof (cases "falsy (apiKey s)")
      case False
      obtain r s' where e: "ensure_orchestrator env ?s0 = (r, s')"
        by (cases "ensure_orchestrator env ?s0")
      have "step env (Start 0) (alone s None (NotStarted ev)) =
          Some (alone (s'\<lparr>orchestratorPromise := Some r\<rparr>) None (AwaitingOrchestrator ev))"
        using None False e by (subst start_alone) (simp add: Let_def)
      moreover have "snd (await_orchestrator env ?s0) = s'\<lparr>orchestratorPromise := Some r\<rparr>"
        using None False e by (simp add: await_orchestrator_def initializeOrchestrator_def)
      ultimately have r: "run env [Start 0] (alone s None (NotStarted ev)) =
          Some (alone (snd (await_orchestrator env ?s0)) None (AwaitingOrchestrator ev))"
        by (simp only: run.simps option.case)
      show ?thesis by (rule exI [where x = "[Start 0]"]) (rule r)
    next
      case True
      obtain r s' where g: "getApiKeyFromSSM env ?s0 = (r, s')"
        by (cases "getApiKeyFromSSM env ?s0")
      obtain res s'' where k: "key_awaited env r s' = (res, s'')"
        by (cases "key_awaited env r s'")
      have a: "step env (Start 0) (alone s None (NotStarted ev)) =
          Some (alone (emit (SsmSend getParameterCommand) ?s0) (Some AwaitingParameter)
                  (AwaitingOrchestrator ev))"
        using None True by (subst start_alone) (simp add: Let_def)
      have b: "step env ParameterAnswer
          (alone (emit (SsmSend getParameterCommand) ?s0) (Some AwaitingParameter)
             (AwaitingOrchestrator ev)) =
          Some (alone s' (Some (KeySettled r)) (AwaitingOrchestrator ev))"
        using g by (subst parameter_answer_alone) simp
      have c: "step env KeyAwaited (alone s' (Some (KeySettled r)) (AwaitingOrchestrator ev)) =
          Some (alone (s''\<lparr>orchestratorPromise := Some res\<rparr>) None (AwaitingOrchestrator ev))"
        using k by (subst key_awaited_alone) simp
      have d: "snd (await_orchestrator env ?s0) = s''\<lparr>orchestratorPromise := Some res\<rparr>"
        using None True g k by (simp add: await_orchestrator_def initializeOrchestrator_def)
      have r: "run env [Start 0, ParameterAnswer, KeyAwaited] (alone s None (NotStarted ev)) =
          Some (alone (snd (await_orchestrator env ?s0)) None (AwaitingOrchestrator ev))"
        by (simp only: run.simps a b c d option.case)
      show ?thesis
        by (rule exI [where x = "[Start 0, ParameterAnswer, KeyAwaited]"]) (rule r)
    qed
  qed
qed

text \<open>
  An invocation that runs with no other invocation under way takes its turns one
  after the other; what it leaves and what it returns is what \<^verbatim>\<open>handler\<close> computes.
\<close>

lemma handler_alone:
  "\<exists>schedule. run env schedule (alone s None (NotStarted ev)) =
     Some (alone (snd (handler env ev s)) None (Finished (fst (handler env ev s))))"
proof -
  let ?s0 = "console_log (ReceivedEvent ev) s"
  obtain r s1 where a: "await_orchestrator env ?s0 = (r, s1)"
    by (cases "await_orchestrator env ?s0")
  have pr: "orchestratorPromise s1 = Some r"
    using await_orchestrator_promise(1) [of env ?s0] a by simp
  obtain sched where init: "run env sched (alone s None (NotStarted ev)) =
      Some (alone s1 None (AwaitingOrchestrator ev))"
    using initialization_alone [of env s ev] a by auto
  have "\<exists>rest. run env rest (alone s1 None (AwaitingOrchestrator ev)) =
      Some (alone (snd (handler env ev s)) None (Finished (fst (handler env ev s))))"
  proof (cases "\<exists>orch. r = Inr orch \<and> \<not> falsy (QUEUE_URL env)")
    case False
    have h: "handler env ev s =
        (case r of Inl e \<Rightarrow> Inl e
         | Inr orch \<Rightarrow> Inl (Error ''QUEUE_URL environment variable is not set''), s1)"
      using a False by (cases r) (simp_all add: handler_def)
    have "step env (OrchestratorAwaited 0) (alone s1 None (AwaitingOrchestrator ev)) =
        Some (alone s1 None (Finished (fst (handler env ev s))))"
      using False h by (subst orchestrator_awaited_alone [OF pr]) (cases r, simp_all)
    then have r: "run env [OrchestratorAwaited 0] (alone s1 None (AwaitingOrchestrator ev)) =
        Some (alone (snd (handler env ev s)) None (Finished (fst (handler env ev s))))"
      using h by (simp only: run.simps option.case snd_conv)
    show ?thesis by (rule exI [where x = "[OrchestratorAwaited 0]"]) (rule r)
  next
    case True
    then obtain orch where orch: "r = Inr orch" and q: "\<not> falsy (QUEUE_URL env)" by blast
    obtain t s' where c: "continue_loop env ev (the (QUEUE_URL env)) orch (Records ev) s1 = (t, s')"
      by (cases "continue_loop env ev (the (QUEUE_URL env)) orch (Records ev) s1")
    have h: "handler env ev s =
        (Inr \<lparr>summary_message =
                ''Processed '' @ string_of_nat (length (Records ev)) @ '' messages''\<rparr>,
         for_records env (the (QUEUE_URL env)) orch (Records ev) s1)"
      using a orch q by (simp add: handler_def)
    have st: "step env (OrchestratorAwaited 0) (alone s1 None (AwaitingOrchestrator ev)) =
        Some (alone s' None t)"
      using orch q c by (subst orchestrator_awaited_alone [OF pr]) simp
    obtain loop where l: "run env loop (alone s' None t) =
        Some (alone (for_records env (the (QUEUE_URL env)) orch (Records ev) s1) None
               (Finished (Inr \<lparr>summary_message =
                  ''Processed '' @ string_of_nat (length (Records ev)) @ '' messages''\<rparr>)))"
      using loop_alone [OF c] ..
    have r: "run env (OrchestratorAwaited 0 # loop) (alone s1 None (AwaitingOrchestrator ev)) =
        Some (alone (snd (handler env ev s)) None (Finished (fst (handler env ev s))))"
      by (simp only: run.simps st option.case l h fst_conv snd_conv)
    show ?thesis by (rule exI [where x = "OrchestratorAwaited 0 # loop"]) (rule r)
  qed
  then obtain rest where rest: "run env rest (alone s1 None (AwaitingOrchestrator ev)) =
      Some (alone (snd (handler env ev s)) None (Finished (fst (handler env ev s))))" ..
  have r: "run env (sched @ rest) (alone s None (NotStarted ev)) =
      Some (alone (snd (handler env ev s)) None (Finished (fst (handler env ev s))))"
    by (simp only: run_append init option.case rest)
  show ?thesis by (rule exI [where x = "sched @ rest"]) (rule r)
qed

section \<open>The claims\<close>

text \<open>
  C1. Once the handler has its orchestrator and the queue's address, a record whose
  processing throws at any point (parsing the body or reading its fields, the
  routing call, publishing the result) does not stop the loop and does not leave
  the handler: the error is logged with \<^verbatim>\<open>console.error\<close>, the records after it are
  processed from the state so reached, and the handler returns its summary. Every
  record of the batch leaves one outcome in the trace, a sent message or a logged
  error.
\<close>

theorem record_failures_are_isolated:
  assumes "fst (await_orchestrator env (console_log (ReceivedEvent ev) s)) = Inr orch"
    and "QUEUE_URL env = Some q" and "q \<noteq> []"
    and "Records ev = pre @ r # post"
    and "s\<^sub>r = for_records env q orch pre
                 (snd (await_orchestrator env (console_log (ReceivedEvent ev) s)))"
    and "JSON_parse env (body r) = Inl e \<or> parse_record env r = Inl e \<or>
         (\<exists>msg sid. parse_record env r = Inr (msg, sid) \<and>
            (fst (routeRequest env orch msg sid sid (world s\<^sub>r)) = Inl e \<or>
             (\<exists>resp w. routeRequest env orch msg sid sid (world s\<^sub>r) = (Inr resp, w) \<and>
                fst (sqs_send env
                       \<lparr>QueueUrl = q,
                        MessageBody =
                          \<lparr>destination = ''customer'', message = output resp\<rparr>\<rparr> w)
                  = Inl e)))"
  shows "\<exists>s'. try_record env q orch r s\<^sub>r = (Inl e, s')
       \<and> handler env ev s =
           (Inr \<lparr>summary_message =
                   ''Processed '' @ string_of_nat (length (Records ev)) @ '' messages''\<rparr>,
            for_records env q orch post (console_error (ErrorProcessingRecord e) s'))
       \<and> length (filter is_outcome
            (new_events (snd (await_orchestrator env (console_log (ReceivedEvent ev) s)))
                        (snd (handler env ev s)))) = length (Records ev)"
proof -
  obtain s1 where s1: "await_orchestrator env (console_log (ReceivedEvent ev) s) = (Inr orch, s1)"
    using assms(1) by (cases "await_orchestrator env (console_log (ReceivedEvent ev) s)") simp
  have "JSON_parse env (body r) = Inl e \<Longrightarrow> parse_record env r = Inl e"
    by (simp add: parse_record_def)
  then have "fst (try_record env q orch r s\<^sub>r) = Inl e"
    using assms(6) try_record_throws [of env q orch r s\<^sub>r e] by blast
  then obtain s' where thrown: "try_record env q orch r s\<^sub>r = (Inl e, s')"
    by (cases "try_record env q orch r s\<^sub>r") simp
  have h: "handler env ev s =
      (Inr \<lparr>summary_message = ''Processed '' @ string_of_nat (length (Records ev)) @ '' messages''\<rparr>,
       for_records env q orch (Records ev) s1)"
    using s1 assms(2,3) by (simp add: handler_def falsy_def)
  have "for_records env q orch (Records ev) s1 =
        for_records env q orch post (process_record env q orch r s\<^sub>r)"
    using assms(4,5) s1 by (simp add: for_records_append)
  also have "process_record env q orch r s\<^sub>r = console_error (ErrorProcessingRecord e) s'"
    using thrown by (simp add: process_record_def)
  finally have loop: "for_records env q orch (Records ev) s1 =
      for_records env q orch post (console_error (ErrorProcessingRecord e) s')" .
  obtain evs where "trace (for_records env q orch (Records ev) s1) = trace s1 @ evs"
     "length (filter is_outcome evs) = length (Records ev)"
    using for_records_outcomes by blast
  then have "length (filter is_outcome (new_events s1 (for_records env q orch (Records ev) s1)))
     = length (Records ev)"
    by (simp add: new_events_def)
  with h loop s1 thrown show ?thesis by simp
qed

theorem record_failures_are_isolated_witness:
  "fst (await_orchestrator demo_env (console_log (ReceivedEvent mixed_batch) fresh_state)) =
     Inr demo_orchestrator
   \<and> QUEUE_URL demo_env = Some ''https://sqs.example/customer''
   \<and> Records mixed_batch = [order_record] @ malformed_record # [empty_record]
   \<and> JSON_parse demo_env (body malformed_record) = Inl (SyntaxError ''Unexpected token'')
   \<and> fst (handler demo_env mixed_batch fresh_state) =
       Inr \<lparr>summary_message = ''Processed 3 messages''\<rparr>
   \<and> filter is_outcome (trace (snd (handler demo_env mixed_batch fresh_state))) =
       [ConsoleLog (MessageSent (Some ''m-1'')),
        ConsoleError (ErrorProcessingRecord (SyntaxError ''Unexpected token'')),
        ConsoleLog (MessageSent (Some ''m-1''))]"
proof -
  let ?q = "''https://sqs.example/customer''"
  let ?s1 = "snd (await_orchestrator demo_env (console_log (ReceivedEvent mixed_batch) fresh_state))"
  have a: "fst (await_orchestrator demo_env (console_log (ReceivedEvent mixed_batch) fresh_state)) =
     Inr demo_orchestrator"
    by (simp add: demo_warm)
  have b: "QUEUE_URL demo_env = Some ?q" by (simp add: demo_env_def)
  have c: "?q \<noteq> []" by simp
  have d: "Records mixed_batch = [order_record] @ malformed_record # [empty_record]"
    by (simp add: mixed_batch_def)
  have e: "JSON_parse demo_env (body malformed_record) = Inl (SyntaxError ''Unexpected token'')"
    by (simp add: malformed_record_def demo_env_def order_body_def quoted_def)
  then have e': "JSON_parse demo_env (body malformed_record) = Inl (SyntaxError ''Unexpected token'')
      \<or> parse_record demo_env malformed_record = Inl (SyntaxError ''Unexpected token'') \<or>
         (\<exists>msg sid. parse_record demo_env malformed_record = Inr (msg, sid) \<and>
            (fst (routeRequest demo_env demo_orchestrator msg sid sid
                    (world (for_records demo_env ?q demo_orchestrator [order_record] ?s1))) =
               Inl (SyntaxError ''Unexpected token'') \<or>
             (\<exists>resp w. routeRequest demo_env demo_orchestrator msg sid sid
                    (world (for_records demo_env ?q demo_orchestrator [order_record] ?s1)) =
                  (Inr resp, w) \<and>
                fst (sqs_send demo_env
                       \<lparr>QueueUrl = ?q,
                        MessageBody =
                          \<lparr>destination = ''customer'', message = output resp\<rparr>\<rparr> w)
                  = Inl (SyntaxError ''Unexpected token''))))"
    by (rule disjI1)
  note t = record_failures_are_isolated [OF a b c d refl e']
  have f: "fst (handler demo_env mixed_batch fresh_state) =
       Inr \<lparr>summary_message = ''Processed 3 messages''\<rparr>"
    using t by (auto simp: mixed_batch_def string_of_nat.simps)
  have g: "filter is_outcome (trace (snd (handler demo_env mixed_batch fresh_state))) =
       [ConsoleLog (MessageSent (Some ''m-1'')),
        ConsoleError (ErrorProcessingRecord (SyntaxError ''Unexpected token'')),
        ConsoleLog (MessageSent (Some ''m-1''))]"
    by (simp add: model_defs demo_defs)
  show ?thesis using a b d e f g by simp
qed

text \<open>
  C2. The claim has two halves: when the initialization of the first handler
  invocation fails, the error propagates to that caller; and a later invocation in
  the same process attempts the initialization again instead of receiving the same
  failure. The handler does the first and not the second. In a process whose
  parameter store refuses the first request and answers every later one, the first
  invocation throws \<^verbatim>\<open>Failed to retrieve API key\<close>; the store would answer the next
  request with the key; the second invocation throws the same error, and the only
  request to the store in the whole trace is the one of the first invocation. The same
  second invocation, started with \<^verbatim>\<open>orchestratorPromise\<close> cleared, initializes and
  returns its summary.
\<close>

theorem failed_initialization_is_not_retried:
  "fst (handler throttled_env \<lparr>Records = [order_record]\<rparr> fresh_state) =
     Inl (Error ''Failed to retrieve API key'')
   \<and> fst (ssm_send throttled_env getParameterCommand
            (world (snd (handler throttled_env \<lparr>Records = [order_record]\<rparr> fresh_state)))) =
     Inr \<lparr>Parameter = Some \<lparr>Value = Some ''sk-test''\<rparr>\<rparr>
   \<and> fst (handler throttled_env \<lparr>Records = [order_record]\<rparr>
            (snd (handler throttled_env \<lparr>Records = [order_record]\<rparr> fresh_state))) =
     Inl (Error ''Failed to retrieve API key'')
   \<and> filter is_fetch
       (trace (snd (handler throttled_env \<lparr>Records = [order_record]\<rparr>
                      (snd (handler throttled_env \<lparr>Records = [order_record]\<rparr> fresh_state))))) =
     [SsmSend getParameterCommand]
   \<and> fst (handler throttled_env \<lparr>Records = [order_record]\<rparr>
            ((snd (handler throttled_env \<lparr>Records = [order_record]\<rparr> fresh_state))
               \<lparr>orchestratorPromise := None\<rparr>)) =
     Inr \<lparr>summary_message = ''Processed 1 messages''\<rparr>"
  by (simp add: model_defs demo_defs string_of_nat.simps)

text \<open>
  C3. Let any number of handler invocations be under way in a fresh process, their
  stretches of code interleaved in any order. Then the parameter store is asked at
  most once, and exactly once as soon as one invocation has started; the
  orchestrator is constructed at most once and the agents are registered at most
  once, in the source's order; while the initialization is pending every
  invocation that has started waits for it; once its promise is fulfilled there
  has been exactly one construction and one complete sequence of registrations,
  and every invocation that works on its records works with the orchestrator of
  that one promise.
\<close>

theorem single_flight_initialization:
  assumes "run env schedule (fresh_process w evs) = Some p"
  shows "length (tasks p) = length evs
       \<and> length (filter is_fetch (trace (vars p))) \<le> 1
       \<and> ((\<exists>t\<in>set (tasks p). \<not> not_started t) \<longrightarrow>
            filter is_fetch (trace (vars p)) = [SsmSend getParameterCommand])
       \<and> length (filter is_construction (trace (vars p))) \<le> 1
       \<and> (\<exists>n. filter is_registration (trace (vars p)) = take n (registrations env))
       \<and> (initializing p \<noteq> None \<longrightarrow>
            orchestratorPromise (vars p) = None \<and> list_all awaits_initialization (tasks p))
       \<and> (\<forall>orch. orchestratorPromise (vars p) = Some (Inr orch) \<longrightarrow>
            filter is_construction (trace (vars p)) = [NewOrchestrator (options orch)] \<and>
            filter is_registration (trace (vars p)) = registrations env)
       \<and> (\<forall>t\<in>set (tasks p). \<forall>orch. task_orchestrator t = Some orch \<longrightarrow>
            orchestratorPromise (vars p) = Some (Inr orch))"
proof -
  have inv: "single_flight env p"
    using fresh_single_flight assms by (rule run_single_flight)
  then have v: "vars_ok env (initializing p) (vars p)"
    and t: "tasks_ok (initializing p) (orchestratorPromise (vars p)) (tasks p)"
    by (simp_all add: single_flight_def)
  have len: "length (tasks p) = length evs"
    using run_length [OF assms] by (simp add: fresh_process_def)
  have fetch1: "length (filter is_fetch (trace (vars p))) \<le> 1"
    using v by (cases "orchestratorPromise (vars p) = None \<and> initializing p = None")
               (auto simp: vars_ok_def)
  have fetch2: "filter is_fetch (trace (vars p)) = [SsmSend getParameterCommand]"
    if "\<exists>t\<in>set (tasks p). \<not> not_started t"
  proof -
    have "\<not> list_all not_started (tasks p)"
      using that by (simp add: list_all_iff)
    then have "\<not> (orchestratorPromise (vars p) = None \<and> initializing p = None)"
      using t by (auto simp: tasks_ok_def)
    then show ?thesis using v by (auto simp: vars_ok_def)
  qed
  have cons: "length (filter is_construction (trace (vars p))) \<le> 1"
    using v by (cases "orchestratorPromise (vars p)") (auto simp: vars_ok_def settled_ok_def)
  have regs: "\<exists>n. filter is_registration (trace (vars p)) = take n (registrations env)"
  proof (cases "orchestratorPromise (vars p)")
    case None
    then have "filter is_registration (trace (vars p)) = take 0 (registrations env)"
      using v by (simp add: vars_ok_def)
    then show ?thesis by (rule exI)
  next
    case (Some r)
    then show ?thesis using v by (simp add: vars_ok_def settled_ok_def)
  qed
  have pending: "initializing p \<noteq> None \<longrightarrow>
      orchestratorPromise (vars p) = None \<and> list_all awaits_initialization (tasks p)"
    using v t by (auto simp: vars_ok_def tasks_ok_def)
  have fulfilled: "\<forall>orch. orchestratorPromise (vars p) = Some (Inr orch) \<longrightarrow>
            filter is_construction (trace (vars p)) = [NewOrchestrator (options orch)] \<and>
            filter is_registration (trace (vars p)) = registrations env"
    using v by (simp add: vars_ok_def settled_ok_def)
  have shared: "\<forall>t\<in>set (tasks p). \<forall>orch. task_orchestrator t = Some orch \<longrightarrow>
            orchestratorPromise (vars p) = Some (Inr orch)"
    using t by (simp add: tasks_ok_def)
  show ?thesis
    using len fetch1 fetch2 cons regs pending fulfilled shared by blast
qed

theorem single_flight_initialization_witness:
  "(\<exists>p. all_started = Some p
        \<and> tasks p = map AwaitingOrchestrator three_events
        \<and> initializing p = Some AwaitingParameter
        \<and> orchestratorPromise (vars p) = None
        \<and> filter is_fetch (trace (vars p)) = [SsmSend getParameterCommand])
   \<and> (\<exists>p. interleaved = Some p
        \<and> orchestratorPromise (vars p) = Some (Inr demo_orchestrator)
        \<and> map task_orchestrator (tasks p) = [Some demo_orchestrator, None, None]
        \<and> filter is_fetch (trace (vars p)) = [SsmSend getParameterCommand]
        \<and> filter is_construction (trace (vars p)) =
            [NewOrchestrator (options demo_orchestrator)]
        \<and> filter is_registration (trace (vars p)) = registrations demo_env)"
proof -
  have "\<exists>p. all_started = Some p
        \<and> tasks p = map AwaitingOrchestrator three_events
        \<and> initializing p = Some AwaitingParameter"
    by (simp add: all_started_def conc_defs model_defs Let_def)
  then obtain p where p: "all_started = Some p
        \<and> tasks p = map AwaitingOrchestrator three_events
        \<and> initializing p = Some AwaitingParameter" ..
  then have run: "run demo_env [Start 0, Start 1, Start 2] (fresh_process 0 three_events) = Some p"
    unfolding all_started_def by (rule conjunct1)
  note t = single_flight_initialization [OF run]
  have tasks: "tasks p = map AwaitingOrchestrator three_events"
    and ini: "initializing p = Some AwaitingParameter"
    using p by (rule conjunct1 [OF conjunct2], rule conjunct2 [OF conjunct2])
  have "AwaitingOrchestrator mixed_batch \<in> set (tasks p)"
    unfolding tasks by (simp add: three_events_def)
  moreover have "\<not> not_started (AwaitingOrchestrator mixed_batch)" by simp
  ultimately have "\<exists>t\<in>set (tasks p). \<not> not_started t" by (rule bexI [rotated])
  then have f: "filter is_fetch (trace (vars p)) = [SsmSend getParameterCommand]"
    using t by (elim conjE) (erule mp)
  have "initializing p \<noteq> None" using ini by simp
  then have n: "orchestratorPromise (vars p) = None"
    using t by (elim conjE) (drule mp, assumption, erule conjunct1)
  have first:
    "\<exists>p. all_started = Some p
        \<and> tasks p = map AwaitingOrchestrator three_events
        \<and> initializing p = Some AwaitingParameter
        \<and> orchestratorPromise (vars p) = None
        \<and> filter is_fetch (trace (vars p)) = [SsmSend getParameterCommand]"
    using p n f by (intro exI [of _ p]) simp
  have "\<exists>p. interleaved = Some p
        \<and> orchestratorPromise (vars p) = Some (Inr demo_orchestrator)
        \<and> map task_orchestrator (tasks p) = [Some demo_orchestrator, None, None]"
    by (simp add: interleaved_def conc_defs model_defs demo_defs Let_def)
  then obtain p' where p': "interleaved = Some p'
        \<and> orchestratorPromise (vars p') = Some (Inr demo_orchestrator)
        \<and> map task_orchestrator (tasks p') = [Some demo_orchestrator, None, None]" ..
  then have run': "run demo_env
       [Start 0, Start 1, ParameterAnswer, Start 2, KeyAwaited, OrchestratorAwaited 2,
        OrchestratorAwaited 0, RouteAnswer 2, RouteAnswer 0, SendAnswer 0,
        OrchestratorAwaited 1, SendAnswer 2]
       (fresh_process 0 three_events) = Some p'"
    unfolding interleaved_def by (rule conjunct1)
  note t' = single_flight_initialization [OF run']
  have pr: "orchestratorPromise (vars p') = Some (Inr demo_orchestrator)"
    and ts: "map task_orchestrator (tasks p') = [Some demo_orchestrator, None, None]"
    using p' by (rule conjunct1 [OF conjunct2], rule conjunct2 [OF conjunct2])
  have "Some demo_orchestrator \<in> set (map task_orchestrator (tasks p'))"
    unfolding ts by simp
  then obtain x where x: "x \<in> set (tasks p')" "task_orchestrator x = Some demo_orchestrator"
    by auto
  have "\<not> not_started x"
    using x(2) by (cases x) simp_all
  with x(1) have "\<exists>t\<in>set (tasks p'). \<not> not_started t" by (rule bexI [rotated])
  then have f': "filter is_fetch (trace (vars p')) = [SsmSend getParameterCommand]"
    using t' by (elim conjE) (erule mp)
  have c': "filter is_construction (trace (vars p')) =
        [NewOrchestrator (options demo_orchestrator)] \<and>
      filter is_registration (trace (vars p')) = registrations demo_env"
    using t' pr by (elim conjE) (erule allE, erule mp)
  have second: "\<exists>p. interleaved = Some p
        \<and> orchestratorPromise (vars p) = Some (Inr demo_orchestrator)
        \<and> map task_orchestrator (tasks p) = [Some demo_orchestrator, None, None]
        \<and> filter is_fetch (trace (vars p)) = [SsmSend getParameterCommand]
        \<and> filter is_construction (trace (vars p)) =
            [NewOrchestrator (options demo_orchestrator)]
        \<and> filter is_registration (trace (vars p)) = registrations demo_env"
    using p' f' c' by (intro exI [of _ p']) simp
  show ?thesis
    using first second by (rule conjI)
qed

text \<open>
  C4. Whenever the handler has its orchestrator (the initialization succeeded, in
  this invocation or in an earlier one) and \<^verbatim>\<open>QUEUE_URL\<close> is set, it returns the
  summary \<^verbatim>\<open>{ message: "Processed K messages" }\<close>, where \<^verbatim>\<open>K\<close> is the decimal
  number of records of the batch, whatever happened to the records. The result is
  a value of the handler; no exit code is involved.
\<close>

theorem handler_summary:
  assumes "fst (await_orchestrator env (console_log (ReceivedEvent ev) s)) = Inr orch"
    and "\<not> falsy (QUEUE_URL env)"
  shows "\<exists>k. fst (handler env ev s) =
              Inr \<lparr>summary_message = ''Processed '' @ k @ '' messages''\<rparr>
           \<and> k = string_of_nat (length (Records ev))
           \<and> decimal_value k = length (Records ev)"
proof -
  obtain s1 where "await_orchestrator env (console_log (ReceivedEvent ev) s) = (Inr orch, s1)"
    using assms(1) by (cases "await_orchestrator env (console_log (ReceivedEvent ev) s)") simp
  then have "fst (handler env ev s) =
      Inr \<lparr>summary_message = ''Processed '' @ string_of_nat (length (Records ev)) @ '' messages''\<rparr>"
    using assms(2) by (simp add: handler_def)
  then show ?thesis
    by (simp add: decimal_value_string_of_nat)
qed

theorem handler_summary_witness:
  "fst (await_orchestrator demo_env (console_log (ReceivedEvent mixed_batch) fresh_state)) =
     Inr demo_orchestrator
   \<and> \<not> falsy (QUEUE_URL demo_env)
   \<and> fst (handler demo_env mixed_batch fresh_state) =
       Inr \<lparr>summary_message = ''Processed 3 messages''\<rparr>
   \<and> filter is_outcome (trace (snd (handler demo_env mixed_batch fresh_state))) =
       [ConsoleLog (MessageSent (Some ''m-1'')),
        ConsoleError (ErrorProcessingRecord (SyntaxError ''Unexpected token'')),
        ConsoleLog (MessageSent (Some ''m-1''))]"
proof -
  have a: "fst (await_orchestrator demo_env (console_log (ReceivedEvent mixed_batch) fresh_state)) =
     Inr demo_orchestrator"
    by (simp add: demo_warm)
  have b: "\<not> falsy (QUEUE_URL demo_env)"
    by (simp add: falsy_def demo_env_def)
  have "fst (handler demo_env mixed_batch fresh_state) =
       Inr \<lparr>summary_message = ''Processed 3 messages''\<rparr>"
    using handler_summary [OF a b] by (auto simp: mixed_batch_def string_of_nat.simps)
  moreover have "filter is_outcome (trace (snd (handler demo_env mixed_batch fresh_state))) =
       [ConsoleLog (MessageSent (Some ''m-1'')),
        ConsoleError (ErrorProcessingRecord (SyntaxError ''Unexpected token'')),
        ConsoleLog (MessageSent (Some ''m-1''))]"
    by (simp add: model_defs demo_defs)
  ultimately show ?thesis using a b by simp
qed

text \<open>
  C5. Let \<^verbatim>\<open>r\<close> be a record of the batch, at any position, whose body yields the
  arguments of the routing call and whose \<^verbatim>\<open>routeRequest\<close> call succeeds with a
  result and leaves the world \<^verbatim>\<open>w\<close>. The handler then calls \<^verbatim>\<open>sqs.send\<close> once, in
  the world \<^verbatim>\<open>w\<close>, with the command whose address is \<^verbatim>\<open>QUEUE_URL\<close> and whose body is
  \<^verbatim>\<open>{ destination: "customer", message: <the result's output> }\<close>: the state after
  the record is the state before it with the lines logged on the way, the world that
  this call of \<^verbatim>\<open>sqs.send\<close> leaves, and the message id it answers logged (or its error,
  when the queue refuses the command).
\<close>

theorem routed_record_is_published:
  assumes "fst (await_orchestrator env (console_log (ReceivedEvent ev) s)) = Inr orch"
    and "QUEUE_URL env = Some q" and "q \<noteq> []"
    and "Records ev = pre @ r # post"
    and "s\<^sub>r = for_records env q orch pre
                 (snd (await_orchestrator env (console_log (ReceivedEvent ev) s)))"
    and "parse_record env r = Inr (msg, sid)"
    and "routeRequest env orch msg sid sid (world s\<^sub>r) = (Inr resp, w)"
  shows "snd (handler env ev s) = for_records env q orch post (process_record env q orch r s\<^sub>r)
       \<and> filter is_send (new_events s\<^sub>r (process_record env q orch r s\<^sub>r)) =
           [SqsSend \<lparr>QueueUrl = q,
                     MessageBody = \<lparr>destination = ''customer'', message = output resp\<rparr>\<rparr>]
       \<and> process_record env q orch r s\<^sub>r =
           (let command =
                  \<lparr>QueueUrl = q,
                   MessageBody = \<lparr>destination = ''customer'', message = output resp\<rparr>\<rparr>;
                s2 = emit (SqsSend command)
                       (console_log (OrchestratorResponse resp)
                          ((emit (RouteRequest msg sid sid)
                              (console_log (CallingOrchestrator sid msg) s\<^sub>r))\<lparr>world := w\<rparr>))
            in case sqs_send env command w of
                 (Inl e, w') \<Rightarrow> console_error (ErrorProcessingRecord e) (s2\<lparr>world := w'\<rparr>)
               | (Inr response, w') \<Rightarrow>
                   console_log (MessageSent (MessageId response)) (s2\<lparr>world := w'\<rparr>))
       \<and> world (process_record env q orch r s\<^sub>r) =
           snd (sqs_send env
                  \<lparr>QueueUrl = q,
                   MessageBody = \<lparr>destination = ''customer'', message = output resp\<rparr>\<rparr> w)"
proof -
  let ?command = "\<lparr>QueueUrl = q,
                   MessageBody = \<lparr>destination = ''customer'', message = output resp\<rparr>\<rparr>"
  let ?sb = "emit (RouteRequest msg sid sid) (console_log (CallingOrchestrator sid msg) s\<^sub>r)"
  let ?s2 = "emit (SqsSend ?command) (console_log (OrchestratorResponse resp) (?sb\<lparr>world := w\<rparr>))"
  obtain s1 where s1: "await_orchestrator env (console_log (ReceivedEvent ev) s) = (Inr orch, s1)"
    using assms(1) by (cases "await_orchestrator env (console_log (ReceivedEvent ev) s)") simp
  have "snd (handler env ev s) = for_records env q orch (Records ev) s1"
    using s1 assms(2,3) by (simp add: handler_def falsy_def)
  then have whole: "snd (handler env ev s) =
      for_records env q orch post (process_record env q orch r s\<^sub>r)"
    using assms(4,5) s1 by (simp add: for_records_append)
  have sends: "filter is_send (new_events s\<^sub>r (process_record env q orch r s\<^sub>r)) = [SqsSend ?command]"
    by (rule process_record_success [OF assms(6,7)])
  have b: "begin_record env r s\<^sub>r = (Inr (msg, sid), ?sb)"
    using assms(6) by (simp add: begin_record_def)
  have wb: "world ?sb = world s\<^sub>r" by simp
  have rt: "routed q resp (?sb\<lparr>world := w\<rparr>) = (?command, ?s2)"
    by (simp add: routed_def Let_def)
  have w2: "world ?s2 = w" by simp
  obtain ans w' where send: "sqs_send env ?command w = (ans, w')"
    by (cases "sqs_send env ?command w")
  have eq: "process_record env q orch r s\<^sub>r =
      (case sqs_send env ?command w of
         (Inl e, w') \<Rightarrow> console_error (ErrorProcessingRecord e) (?s2\<lparr>world := w'\<rparr>)
       | (Inr response, w') \<Rightarrow>
           console_log (MessageSent (MessageId response)) (?s2\<lparr>world := w'\<rparr>))"
    by (subst process_record_cases, cases ans)
       (simp_all add: b wb assms(7) rt w2 send sent_def)
  have wd: "world (process_record env q orch r s\<^sub>r) = snd (sqs_send env ?command w)"
    by (cases ans) (simp_all add: eq send)
  from whole sends eq wd show ?thesis
    by (simp only: Let_def simp_thms)
qed

theorem routed_record_is_published_witness:
  "fst (await_orchestrator demo_env (console_log (ReceivedEvent mixed_batch) fresh_state)) =
     Inr demo_orchestrator
   \<and> QUEUE_URL demo_env = Some ''https://sqs.example/customer''
   \<and> Records mixed_batch = [] @ order_record # [malformed_record, empty_record]
   \<and> parse_record demo_env order_record = Inr (JStr ''Where is my order #123?'', JStr ''abc'')
   \<and> routeRequest demo_env demo_orchestrator (JStr ''Where is my order #123?'') (JStr ''abc'')
        (JStr ''abc'') 1 = (Inr order_status, 2)
   \<and> sqs_send demo_env
        \<lparr>QueueUrl = ''https://sqs.example/customer'',
         MessageBody = \<lparr>destination = ''customer'', message = ''Order #123 has shipped.''\<rparr>\<rparr> 2 =
       (Inr \<lparr>MessageId = Some ''m-1''\<rparr>, 3)
   \<and> filter is_send
        (new_events (warm_state\<lparr>trace := ConsoleLog (ReceivedEvent mixed_batch) # trace warm_state\<rparr>)
           (process_record demo_env ''https://sqs.example/customer'' demo_orchestrator order_record
              (warm_state\<lparr>trace := ConsoleLog (ReceivedEvent mixed_batch) # trace warm_state\<rparr>))) =
       [SqsSend \<lparr>QueueUrl = ''https://sqs.example/customer'',
                 MessageBody =
                   \<lparr>destination = ''customer'', message = ''Order #123 has shipped.''\<rparr>\<rparr>]
   \<and> world (process_record demo_env ''https://sqs.example/customer'' demo_orchestrator order_record
              (warm_state\<lparr>trace := ConsoleLog (ReceivedEvent mixed_batch) # trace warm_state\<rparr>)) = 3
   \<and> last (trace (process_record demo_env ''https://sqs.example/customer'' demo_orchestrator
                     order_record
                     (warm_state\<lparr>trace := ConsoleLog (ReceivedEvent mixed_batch) #
                                            trace warm_state\<rparr>))) =
       ConsoleLog (MessageSent (Some ''m-1''))"
proof -
  let ?q = "''https://sqs.example/customer''"
  let ?s1 = "warm_state\<lparr>trace := ConsoleLog (ReceivedEvent mixed_batch) # trace warm_state\<rparr>"
  have a: "fst (await_orchestrator demo_env (console_log (ReceivedEvent mixed_batch) fresh_state)) =
     Inr demo_orchestrator"
    by (simp add: demo_warm)
  have b: "QUEUE_URL demo_env = Some ?q" by (simp add: demo_env_def)
  have c: "?q \<noteq> []" by simp
  have d: "Records mixed_batch = [] @ order_record # [malformed_record, empty_record]"
    by (simp add: mixed_batch_def)
  have e: "?s1 = for_records demo_env ?q demo_orchestrator []
                 (snd (await_orchestrator demo_env
                         (console_log (ReceivedEvent mixed_batch) fresh_state)))"
    by (simp add: demo_warm)
  have f: "parse_record demo_env order_record =
        Inr (JStr ''Where is my order #123?'', JStr ''abc'')"
    by (simp add: parse_record_def order_record_def demo_env_def)
  have g: "routeRequest demo_env demo_orchestrator (JStr ''Where is my order #123?'')
        (JStr ''abc'') (JStr ''abc'') (world ?s1) = (Inr order_status, 2)"
    by (simp add: demo_env_def warm_state_def)
  have h: "routeRequest demo_env demo_orchestrator (JStr ''Where is my order #123?'')
        (JStr ''abc'') (JStr ''abc'') 1 = (Inr order_status, 2)"
    by (simp add: demo_env_def)
  have i: "sqs_send demo_env
        \<lparr>QueueUrl = ?q,
         MessageBody = \<lparr>destination = ''customer'', message = ''Order #123 has shipped.''\<rparr>\<rparr> 2 =
       (Inr \<lparr>MessageId = Some ''m-1''\<rparr>, 3)"
    by (simp add: demo_env_def)
  note t = routed_record_is_published [OF a b c d e f g]
  have j: "filter is_send (new_events ?s1 (process_record demo_env ?q demo_orchestrator order_record ?s1)) =
       [SqsSend \<lparr>QueueUrl = ?q,
                 MessageBody =
                   \<lparr>destination = ''customer'', message = ''Order #123 has shipped.''\<rparr>\<rparr>]"
    using t [THEN conjunct2, THEN conjunct1] by (simp add: order_status_def)
  have k: "world (process_record demo_env ?q demo_orchestrator order_record ?s1) = 3"
    using t [THEN conjunct2, THEN conjunct2, THEN conjunct2] i by (simp add: order_status_def)
  have "process_record demo_env ?q demo_orchestrator order_record ?s1 =
      console_log (MessageSent (Some ''m-1''))
        ((emit (SqsSend \<lparr>QueueUrl = ?q,
                 MessageBody =
                   \<lparr>destination = ''customer'', message = ''Order #123 has shipped.''\<rparr>\<rparr>)
           (console_log (OrchestratorResponse order_status)
              ((emit (RouteRequest (JStr ''Where is my order #123?'') (JStr ''abc'') (JStr ''abc''))
                  (console_log (CallingOrchestrator (JStr ''abc'') (JStr ''Where is my order #123?''))
                     ?s1))\<lparr>world := 2\<rparr>)))\<lparr>world := 3\<rparr>)"
    using t [THEN conjunct2, THEN conjunct2, THEN conjunct1] i
    by (simp add: order_status_def Let_def)
  then have l: "last (trace (process_record demo_env ?q demo_orchestrator order_record ?s1)) =
       ConsoleLog (MessageSent (Some ''m-1''))"
    by (simp add: console_log_def emit_def)
  show ?thesis using a b d f h i j k l by simp
qed

text \<open>
  C6. In a process, whether its handler invocations run one after the other or
  overlap, the parameter store is asked at most once. A key that
  \<^verbatim>\<open>getApiKeyFromSSM\<close> returns is stored in \<^verbatim>\<open>apiKey\<close>. Once \<^verbatim>\<open>apiKey\<close> holds a key,
  every later invocation, and every later run of \<^verbatim>\<open>initializeOrchestrator\<close>, leaves
  it as it is and sends nothing to the parameter store.
\<close>

theorem credential_fetched_at_most_once:
  "(module_init env w = Inr s\<^sub>0 \<longrightarrow>
      length (filter is_fetch (trace (invocations env evs s\<^sub>0))) \<le> 1)
   \<and> (run env schedule (fresh_process w evs) = Some p \<longrightarrow>
        length (filter is_fetch (trace (vars p))) \<le> 1)
   \<and> (falsy (apiKey s) \<and> fst (getApiKeyFromSSM env s) = Inr k \<longrightarrow>
        apiKey (snd (initializeOrchestrator env s)) = Some k \<and> \<not> falsy (Some k))
   \<and> (\<not> falsy (apiKey s') \<longrightarrow>
        apiKey (snd (initializeOrchestrator env s')) = apiKey s' \<and>
        filter is_fetch (trace (snd (initializeOrchestrator env s'))) = filter is_fetch (trace s') \<and>
        apiKey (invocations env evs s') = apiKey s' \<and>
        filter is_fetch (trace (invocations env evs s')) = filter is_fetch (trace s'))"
proof (intro conjI impI)
  assume "module_init env w = Inr s\<^sub>0"
  then have "process_inv (invocations env evs s\<^sub>0)"
    by (simp add: module_init_inv invocations_inv)
  then show "length (filter is_fetch (trace (invocations env evs s\<^sub>0))) \<le> 1"
    by (simp add: process_inv_def)
next
  assume "run env schedule (fresh_process w evs) = Some p"
  then show "length (filter is_fetch (trace (vars p))) \<le> 1"
    by (rule overlapping_fetches)
next
  assume a: "falsy (apiKey s) \<and> fst (getApiKeyFromSSM env s) = Inr k"
  then show "apiKey (snd (initializeOrchestrator env s)) = Some k"
    by (simp add: initializeOrchestrator_apiKey(2))
  show "\<not> falsy (Some k)"
    using a getApiKeyFromSSM_truthy [of env s k] by (simp add: falsy_def)
next
  assume b: "\<not> falsy (apiKey s')"
  then show "apiKey (snd (initializeOrchestrator env s')) = apiKey s'"
    by (rule initializeOrchestrator_apiKey(1))
  obtain new where "trace (snd (initializeOrchestrator env s')) = trace s' @ new"
    "filter is_fetch new = (if falsy (apiKey s') then [SsmSend getParameterCommand] else [])"
    using initializeOrchestrator_trace by blast
  then show "filter is_fetch (trace (snd (initializeOrchestrator env s'))) =
      filter is_fetch (trace s')"
    using b by simp
  show "apiKey (invocations env evs s') = apiKey s'"
    "filter is_fetch (trace (invocations env evs s')) = filter is_fetch (trace s')"
    using invocations_apiKey [OF b] by simp_all
qed

theorem credential_fetched_at_most_once_witness:
  "module_init demo_env 0 = Inr fresh_state
   \<and> filter is_fetch (trace (invocations demo_env [mixed_batch, mixed_batch] fresh_state)) =
       [SsmSend getParameterCommand]
   \<and> (\<exists>p. run demo_env [Start 0, Start 1] (fresh_process 0 [mixed_batch, mixed_batch]) = Some p
         \<and> filter is_fetch (trace (vars p)) = [SsmSend getParameterCommand])
   \<and> falsy (apiKey fresh_state)
   \<and> fst (getApiKeyFromSSM demo_env fresh_state) = Inr ''sk-test''
   \<and> apiKey (snd (initializeOrchestrator demo_env fresh_state)) = Some ''sk-test''
   \<and> \<not> falsy (apiKey warm_state)
   \<and> apiKey (invocations demo_env [mixed_batch, mixed_batch] warm_state) = Some ''sk-test''
   \<and> filter is_fetch (trace (invocations demo_env [mixed_batch, mixed_batch] warm_state)) =
       [SsmSend getParameterCommand]"
proof -
  have "\<exists>p. run demo_env [Start 0, Start 1] (fresh_process 0 [mixed_batch, mixed_batch]) = Some p
         \<and> filter is_fetch (trace (vars p)) = [SsmSend getParameterCommand]"
    by (simp add: conc_defs model_defs Let_def)
  then obtain p where p:
    "run demo_env [Start 0, Start 1] (fresh_process 0 [mixed_batch, mixed_batch]) = Some p
         \<and> filter is_fetch (trace (vars p)) = [SsmSend getParameterCommand]" ..
  note t = credential_fetched_at_most_once
             [of demo_env 0 fresh_state "[mixed_batch, mixed_batch]" "[Start 0, Start 1]" p
                 fresh_state "''sk-test''" warm_state]
  have a: "module_init demo_env 0 = Inr fresh_state"
    by (simp add: module_init_def falsy_def demo_env_def fresh_state_def)
  have b: "falsy (apiKey fresh_state)"
    by (simp add: falsy_def fresh_state_def)
  have c: "fst (getApiKeyFromSSM demo_env fresh_state) = Inr ''sk-test''"
    by (simp add: model_defs demo_defs)
  have d: "\<not> falsy (apiKey warm_state)"
    by (simp add: falsy_def warm_state_def)
  have e: "length (filter is_fetch (trace (invocations demo_env [mixed_batch, mixed_batch] fresh_state))) \<le> 1"
    "length (filter is_fetch (trace (vars p))) \<le> 1"
    using t a p by blast+
  have f: "apiKey (snd (initializeOrchestrator demo_env fresh_state)) = Some ''sk-test''"
    using t b c by blast
  have g: "apiKey (invocations demo_env [mixed_batch, mixed_batch] warm_state) = apiKey warm_state"
    "filter is_fetch (trace (invocations demo_env [mixed_batch, mixed_batch] warm_state)) =
       filter is_fetch (trace warm_state)"
    using t d by blast+
  have h: "filter is_fetch (trace (invocations demo_env [mixed_batch, mixed_batch] fresh_state)) =
       [SsmSend getParameterCommand]"
    by (simp add: model_defs demo_defs)
  have i: "apiKey warm_state = Some ''sk-test''"
    "filter is_fetch (trace warm_state) = [SsmSend getParameterCommand]"
    by (simp_all add: warm_state_def)
  have j: "\<exists>p. run demo_env [Start 0, Start 1] (fresh_process 0 [mixed_batch, mixed_batch]) = Some p
         \<and> filter is_fetch (trace (vars p)) = [SsmSend getParameterCommand]"
    using p by (rule exI [where x = p])
  show ?thesis
    using a b c d f g h i j by (simp only: simp_thms)
qed

text \<open>
  C7. While the handler processes a record it calls \<^verbatim>\<open>routeRequest\<close> at most once.
  When the body does not yield the arguments, the router is not called and the world
  is unchanged. When it does, the call is
  \<^verbatim>\<open>routeRequest(body.message, body.sessionId, body.sessionId)\<close> on the handler's
  orchestrator, in the world the record started in: the record's \<^verbatim>\<open>sessionId\<close> is both
  the second and the third argument, and the outcome of the record (its error, or the
  response that is published, and the world it leaves) is the outcome of this call.
  In every process, the second and the third argument of every routing call are the
  same value.
\<close>

theorem session_id_is_both_identities:
  "filter is_route (new_events s (process_record env q orch r s)) =
     (case parse_record env r of
        Inl e \<Rightarrow> []
      | Inr (msg, sid) \<Rightarrow> [RouteRequest msg sid sid])
   \<and> (\<forall>msg sid. parse_record env r = Inr (msg, sid) \<longrightarrow>
         (\<exists>b. JSON_parse env (body r) = Inr b \<and>
              property_of b ''sessionId'' = Inr sid \<and>
              property_of b ''message'' = Inr msg))
   \<and> (\<forall>e. parse_record env r = Inl e \<longrightarrow> try_record env q orch r s = (Inl e, s))
   \<and> (\<forall>msg sid. parse_record env r = Inr (msg, sid) \<longrightarrow>
         try_record env q orch r s =
           (let sb = emit (RouteRequest msg sid sid)
                       (console_log (CallingOrchestrator sid msg) s)
            in case routeRequest env orch msg sid sid (world s) of
                 (Inl e, w) \<Rightarrow> (Inl e, sb\<lparr>world := w\<rparr>)
               | (Inr resp, w) \<Rightarrow>
                   (let command =
                          \<lparr>QueueUrl = q,
                           MessageBody =
                             \<lparr>destination = ''customer'', message = output resp\<rparr>\<rparr>;
                        s2 = emit (SqsSend command)
                               (console_log (OrchestratorResponse resp) (sb\<lparr>world := w\<rparr>))
                    in case sqs_send env command w of
                         (Inl e, w') \<Rightarrow> (Inl e, s2\<lparr>world := w'\<rparr>)
                       | (Inr response, w') \<Rightarrow>
                           (Inr (), console_log (MessageSent (MessageId response))
                                      (s2\<lparr>world := w'\<rparr>)))))
   \<and> (module_init env w\<^sub>0 = Inr s\<^sub>0 \<longrightarrow>
         (\<forall>m u h. RouteRequest m u h \<in> set (trace (invocations env evs s\<^sub>0)) \<longrightarrow> u = h))"
proof (intro conjI allI impI)
  show "filter is_route (new_events s (process_record env q orch r s)) =
     (case parse_record env r of
        Inl e \<Rightarrow> []
      | Inr (msg, sid) \<Rightarrow> [RouteRequest msg sid sid])"
  proof (cases "parse_record env r")
    case (Inl e)
    then show ?thesis
      by (simp add: process_record_def try_record_def begin_record_def new_events_def)
  next
    case (Inr args)
    obtain msg sid where args: "args = (msg, sid)" by (cases args)
    obtain res w where route: "routeRequest env orch msg sid sid (world s) = (res, w)"
      by (cases "routeRequest env orch msg sid sid (world s)")
    show ?thesis
    proof (cases res)
      case (Inl e)
      then show ?thesis
        using Inr args route
        by (simp add: process_record_def try_record_def begin_record_def new_events_def)
    next
      case (Inr resp)
      obtain res' w' where send: "sqs_send env
                    \<lparr>QueueUrl = q,
                     MessageBody = \<lparr>destination = ''customer'', message = output resp\<rparr>\<rparr> w
          = (res', w')"
        by (cases "sqs_send env
                    \<lparr>QueueUrl = q,
                     MessageBody = \<lparr>destination = ''customer'', message = output resp\<rparr>\<rparr> w")
      show ?thesis
        using \<open>parse_record env r = Inr args\<close> args route Inr send
        by (cases res')
           (simp_all add: process_record_def try_record_def begin_record_def routed_def
              sent_def Let_def new_events_def)
    qed
  qed
next
  fix msg sid
  assume "parse_record env r = Inr (msg, sid)"
  then show "\<exists>b. JSON_parse env (body r) = Inr b \<and>
              property_of b ''sessionId'' = Inr sid \<and>
              property_of b ''message'' = Inr msg"
    by (auto simp: parse_record_def split: sum.splits if_splits)
next
  fix e
  assume "parse_record env r = Inl e"
  then show "try_record env q orch r s = (Inl e, s)"
    by (simp add: try_record_def begin_record_def)
next
  fix msg sid
  assume p: "parse_record env r = Inr (msg, sid)"
  let ?sb = "emit (RouteRequest msg sid sid) (console_log (CallingOrchestrator sid msg) s)"
  have b: "begin_record env r s = (Inr (msg, sid), ?sb)"
    using p by (simp add: begin_record_def)
  have wb: "world ?sb = world s" by simp
  obtain res w where route: "routeRequest env orch msg sid sid (world s) = (res, w)"
    by (cases "routeRequest env orch msg sid sid (world s)")
  show "try_record env q orch r s =
           (let sb = emit (RouteRequest msg sid sid)
                       (console_log (CallingOrchestrator sid msg) s)
            in case routeRequest env orch msg sid sid (world s) of
                 (Inl e, w) \<Rightarrow> (Inl e, sb\<lparr>world := w\<rparr>)
               | (Inr resp, w) \<Rightarrow>
                   (let command =
                          \<lparr>QueueUrl = q,
                           MessageBody =
                             \<lparr>destination = ''customer'', message = output resp\<rparr>\<rparr>;
                        s2 = emit (SqsSend command)
                               (console_log (OrchestratorResponse resp) (sb\<lparr>world := w\<rparr>))
                    in case sqs_send env command w of
                         (Inl e, w') \<Rightarrow> (Inl e, s2\<lparr>world := w'\<rparr>)
                       | (Inr response, w') \<Rightarrow>
                           (Inr (), console_log (MessageSent (MessageId response))
                                      (s2\<lparr>world := w'\<rparr>))))"
  proof (cases res)
    case (Inl e)
    then show ?thesis
      using route by (simp add: try_record_def b wb Let_def)
  next
    case (Inr resp)
    let ?command = "\<lparr>QueueUrl = q,
                     MessageBody = \<lparr>destination = ''customer'', message = output resp\<rparr>\<rparr>"
    let ?s2 = "emit (SqsSend ?command) (console_log (OrchestratorResponse resp) (?sb\<lparr>world := w\<rparr>))"
    have rt: "routed q resp (?sb\<lparr>world := w\<rparr>) = (?command, ?s2)"
      by (simp add: routed_def Let_def)
    have w2: "world ?s2 = w" by simp
    obtain res' w' where send: "sqs_send env ?command w = (res', w')"
      by (cases "sqs_send env ?command w")
    show ?thesis
      using route Inr
      by (cases res') (simp_all add: try_record_def b wb rt w2 send sent_def Let_def)
  qed
next
  fix m u h
  assume "module_init env w\<^sub>0 = Inr s\<^sub>0"
    and mem: "RouteRequest m u h \<in> set (trace (invocations env evs s\<^sub>0))"
  then have "process_inv (invocations env evs s\<^sub>0)"
    by (simp add: module_init_inv invocations_inv)
  then have "list_all well_formed_event (trace (invocations env evs s\<^sub>0))"
    by (simp add: process_inv_def)
  then have "well_formed_event (RouteRequest m u h)"
    using mem unfolding list_all_iff by blast
  then show "u = h" by simp
qed

theorem session_id_is_both_identities_witness:
  "parse_record demo_env order_record = Inr (JStr ''Where is my order #123?'', JStr ''abc'')
   \<and> filter is_route
        (new_events warm_state
           (process_record demo_env ''https://sqs.example/customer'' demo_orchestrator
              order_record warm_state)) =
       [RouteRequest (JStr ''Where is my order #123?'') (JStr ''abc'') (JStr ''abc'')]
   \<and> routeRequest demo_env demo_orchestrator (JStr ''Where is my order #123?'') (JStr ''abc'')
        (JStr ''abc'') (world warm_state) = (Inr order_status, 2)
   \<and> fst (try_record demo_env ''https://sqs.example/customer'' demo_orchestrator
            order_record warm_state) = Inr ()
   \<and> world (snd (try_record demo_env ''https://sqs.example/customer'' demo_orchestrator
                    order_record warm_state)) = 3
   \<and> parse_record demo_env malformed_record = Inl (SyntaxError ''Unexpected token'')
   \<and> try_record demo_env ''https://sqs.example/customer'' demo_orchestrator
        malformed_record warm_state = (Inl (SyntaxError ''Unexpected token''), warm_state)
   \<and> module_init demo_env 0 = Inr fresh_state
   \<and> RouteRequest JUndefined JUndefined JUndefined
        \<in> set (trace (invocations demo_env [mixed_batch] fresh_state))"
proof -
  let ?q = "''https://sqs.example/customer''"
  note t = session_id_is_both_identities
             [where s = warm_state and env = demo_env and q = ?q and orch = demo_orchestrator
                and r = order_record and w\<^sub>0 = 0 and s\<^sub>0 = fresh_state
                and evs = "[mixed_batch]"]
  note t' = session_id_is_both_identities
             [where s = warm_state and env = demo_env and q = ?q and orch = demo_orchestrator
                and r = malformed_record and w\<^sub>0 = 0 and s\<^sub>0 = fresh_state
                and evs = "[mixed_batch]"]
  have a: "parse_record demo_env order_record =
        Inr (JStr ''Where is my order #123?'', JStr ''abc'')"
    by (simp add: parse_record_def order_record_def demo_env_def)
  have b: "filter is_route
        (new_events warm_state
           (process_record demo_env ?q demo_orchestrator order_record warm_state)) =
       [RouteRequest (JStr ''Where is my order #123?'') (JStr ''abc'') (JStr ''abc'')]"
    using t [THEN conjunct1] a by simp
  have c: "module_init demo_env 0 = Inr fresh_state"
    by (simp add: module_init_def falsy_def demo_env_def fresh_state_def)
  have d: "RouteRequest JUndefined JUndefined JUndefined
        \<in> set (trace (invocations demo_env [mixed_batch] fresh_state))"
    by (simp add: model_defs demo_defs)
  have e: "routeRequest demo_env demo_orchestrator (JStr ''Where is my order #123?'')
        (JStr ''abc'') (JStr ''abc'') (world warm_state) = (Inr order_status, 2)"
    by (simp add: demo_env_def warm_state_def)
  have f: "sqs_send demo_env
        \<lparr>QueueUrl = ?q,
         MessageBody = \<lparr>destination = ''customer'', message = output order_status\<rparr>\<rparr> 2 =
       (Inr \<lparr>MessageId = Some ''m-1''\<rparr>, 3)"
    by (simp add: demo_env_def)
  have g: "try_record demo_env ?q demo_orchestrator order_record warm_state =
      (Inr (), console_log (MessageSent (Some ''m-1''))
        ((emit (SqsSend \<lparr>QueueUrl = ?q,
                 MessageBody =
                   \<lparr>destination = ''customer'', message = output order_status\<rparr>\<rparr>)
           (console_log (OrchestratorResponse order_status)
              ((emit (RouteRequest (JStr ''Where is my order #123?'') (JStr ''abc'') (JStr ''abc''))
                  (console_log (CallingOrchestrator (JStr ''abc'') (JStr ''Where is my order #123?''))
                     warm_state))\<lparr>world := 2\<rparr>)))\<lparr>world := 3\<rparr>))"
    using t [THEN conjunct2, THEN conjunct2, THEN conjunct2, THEN conjunct1] a e f
    by (simp add: Let_def)
  have h: "fst (try_record demo_env ?q demo_orchestrator order_record warm_state) = Inr ()"
    by (simp add: g)
  have i: "world (snd (try_record demo_env ?q demo_orchestrator order_record warm_state)) = 3"
    by (simp add: g)
  have j: "parse_record demo_env malformed_record = Inl (SyntaxError ''Unexpected token'')"
    by (simp add: parse_record_def malformed_record_def demo_env_def order_body_def quoted_def)
  have k: "try_record demo_env ?q demo_orchestrator malformed_record warm_state =
      (Inl (SyntaxError ''Unexpected token''), warm_state)"
    using t' [THEN conjunct2, THEN conjunct2, THEN conjunct1] j by blast
  show ?thesis using a b c d e h i j k by (simp only: simp_thms)
qed

text \<open>
  C8. In every process, each construction of the orchestrator is given a
  configuration with \<^verbatim>\<open>USE_DEFAULT_AGENT_IF_NONE_IDENTIFIED\<close> false and
  \<^verbatim>\<open>MAX_MESSAGE_PAIRS_PER_AGENT\<close> 10, the defaults that the spec states, and the
  orchestrator that the handler works with carries that configuration.
\<close>

theorem orchestrator_configuration:
  assumes "module_init env w = Inr s\<^sub>0"
  shows "(\<forall>opts. NewOrchestrator opts \<in> set (trace (invocations env evs s\<^sub>0)) \<longrightarrow>
            \<not> USE_DEFAULT_AGENT_IF_NONE_IDENTIFIED (config opts) \<and>
            MAX_MESSAGE_PAIRS_PER_AGENT (config opts) = 10)
       \<and> (\<forall>orch. orchestratorPromise (invocations env evs s\<^sub>0) = Some (Inr orch) \<longrightarrow>
            \<not> USE_DEFAULT_AGENT_IF_NONE_IDENTIFIED (config (options orch)) \<and>
            MAX_MESSAGE_PAIRS_PER_AGENT (config (options orch)) = 10)"
proof -
  have inv: "process_inv (invocations env evs s\<^sub>0)"
    using assms by (simp add: module_init_inv invocations_inv)
  have "list_all well_formed_event (trace (invocations env evs s\<^sub>0))"
    using inv by (simp add: process_inv_def)
  then have "well_formed_event (NewOrchestrator opts)"
    if "NewOrchestrator opts \<in> set (trace (invocations env evs s\<^sub>0))" for opts
    using that unfolding list_all_iff by blast
  moreover have "spec_defaults (config (options orch))"
    if "orchestratorPromise (invocations env evs s\<^sub>0) = Some (Inr orch)" for orch
    using inv that by (simp add: process_inv_def configured_def)
  ultimately show ?thesis
    by (simp add: spec_defaults_def)
qed

theorem orchestrator_configuration_witness:
  "module_init demo_env 0 = Inr fresh_state
   \<and> NewOrchestrator (orchestrator_options demo_env (Some ''sk-test''))
        \<in> set (trace (invocations demo_env [mixed_batch] fresh_state))
   \<and> orchestratorPromise (invocations demo_env [mixed_batch] fresh_state) =
        Some (Inr demo_orchestrator)
   \<and> \<not> USE_DEFAULT_AGENT_IF_NONE_IDENTIFIED
          (config (orchestrator_options demo_env (Some ''sk-test'')))
   \<and> MAX_MESSAGE_PAIRS_PER_AGENT
        (config (orchestrator_options demo_env (Some ''sk-test''))) = 10
   \<and> \<not> USE_DEFAULT_AGENT_IF_NONE_IDENTIFIED (config (options demo_orchestrator))
   \<and> MAX_MESSAGE_PAIRS_PER_AGENT (config (options demo_orchestrator)) = 10"
proof -
  have a: "module_init demo_env 0 = Inr fresh_state"
    by (simp add: module_init_def falsy_def demo_env_def fresh_state_def)
  note t = orchestrator_configuration [OF a, of "[mixed_batch]"]
  have b: "NewOrchestrator (orchestrator_options demo_env (Some ''sk-test''))
        \<in> set (trace (invocations demo_env [mixed_batch] fresh_state))"
    by (simp add: model_defs demo_defs)
  have c: "orchestratorPromise (invocations demo_env [mixed_batch] fresh_state) =
        Some (Inr demo_orchestrator)"
    by (simp add: model_defs demo_defs)
  have d: "\<not> USE_DEFAULT_AGENT_IF_NONE_IDENTIFIED
          (config (orchestrator_options demo_env (Some ''sk-test'')))"
    "MAX_MESSAGE_PAIRS_PER_AGENT
        (config (orchestrator_options demo_env (Some ''sk-test''))) = 10"
    using t b by blast+
  have e: "\<not> USE_DEFAULT_AGENT_IF_NONE_IDENTIFIED (config (options demo_orchestrator))"
    "MAX_MESSAGE_PAIRS_PER_AGENT (config (options demo_orchestrator)) = 10"
    using t c by blast+
  show ?thesis using a b c d e by (simp only: simp_thms)
qed

text \<open>
  C9 (amended). \<^verbatim>\<open>getApiKeyFromSSM\<close> returns the retrieved string when the parameter
  store yields a non-empty value. It throws exactly when the fetch call itself
  errors, when the store returns no value, or when the value it returns is the
  empty string (\<^verbatim>\<open>!retrievedApiKey\<close> holds for the empty string too). In every
  failure case what was thrown inside is logged with \<^verbatim>\<open>console.error\<close> and the
  caller gets the error \<^verbatim>\<open>Failed to retrieve API key\<close>.
\<close>

theorem getApiKeyFromSSM_contract:
  assumes "ssm_send env getParameterCommand (world s) = (answer, w)"
  shows "(\<forall>result p v. answer = Inr result \<and> Parameter result = Some p \<and> Value p = Some v \<and> v \<noteq> []
            \<longrightarrow> fst (getApiKeyFromSSM env s) = Inr v)
       \<and> ((\<exists>e. fst (getApiKeyFromSSM env s) = Inl e) \<longleftrightarrow>
            ((\<exists>e. answer = Inl e)
             \<or> (\<exists>result. answer = Inr result \<and>
                  (case Parameter result of
                     None \<Rightarrow> True
                   | Some p \<Rightarrow> Value p = None \<or> Value p = Some []))))
       \<and> (\<forall>e. fst (getApiKeyFromSSM env s) = Inl e \<longrightarrow>
            e = Error ''Failed to retrieve API key'' \<and>
            (\<exists>cause. trace (snd (getApiKeyFromSSM env s)) =
               trace s @ [SsmSend getParameterCommand, ConsoleError (ErrorRetrievingApiKey cause)]
               \<and> (case answer of
                     Inl thrown \<Rightarrow> cause = thrown
                   | Inr result \<Rightarrow> cause = Error ''API key not found in SSM'')))"
  using assms
  by (auto simp: getApiKeyFromSSM_def key_settled_def retrieved_key_cases Let_def
           split: sum.splits option.splits if_splits)

theorem getApiKeyFromSSM_contract_witness:
  "ssm_send demo_env getParameterCommand (world fresh_state) =
     (Inr \<lparr>Parameter = Some \<lparr>Value = Some ''sk-test''\<rparr>\<rparr>, 1)
   \<and> fst (getApiKeyFromSSM demo_env fresh_state) = Inr ''sk-test''
   \<and> ssm_send throttled_env getParameterCommand (world fresh_state) =
     (Inl (Error ''ThrottlingException''), 1)
   \<and> fst (getApiKeyFromSSM throttled_env fresh_state) = Inl (Error ''Failed to retrieve API key'')
   \<and> trace (snd (getApiKeyFromSSM throttled_env fresh_state)) =
       [SsmSend getParameterCommand,
        ConsoleError (ErrorRetrievingApiKey (Error ''ThrottlingException''))]"
proof -
  have a: "ssm_send demo_env getParameterCommand (world fresh_state) =
     (Inr \<lparr>Parameter = Some \<lparr>Value = Some ''sk-test''\<rparr>\<rparr>, 1)"
    by (simp add: demo_defs)
  have b: "ssm_send throttled_env getParameterCommand (world fresh_state) =
     (Inl (Error ''ThrottlingException''), 1)"
    by (simp add: demo_defs)
  have "fst (getApiKeyFromSSM demo_env fresh_state) = Inr ''sk-test''"
    using getApiKeyFromSSM_contract [OF a] by simp
  moreover have c: "\<exists>e. fst (getApiKeyFromSSM throttled_env fresh_state) = Inl e"
    using getApiKeyFromSSM_contract [OF b] by simp
  moreover have "fst (getApiKeyFromSSM throttled_env fresh_state) = Inl (Error ''Failed to retrieve API key'')"
    "trace (snd (getApiKeyFromSSM throttled_env fresh_state)) =
       [SsmSend getParameterCommand,
        ConsoleError (ErrorRetrievingApiKey (Error ''ThrottlingException''))]"
    using c getApiKeyFromSSM_contract [OF b] by (auto simp: fresh_state_def)
  ultimately show ?thesis using a b by simp
qed

theorem empty_value_counterexample:
  "ssm_send empty_value_env getParameterCommand (world fresh_state) =
     (Inr \<lparr>Parameter = Some \<lparr>Value = Some []\<rparr>\<rparr>, 1)
   \<and> fst (getApiKeyFromSSM empty_value_env fresh_state) = Inl (Error ''Failed to retrieve API key'')
   \<and> fst (getApiKeyFromSSM empty_value_env fresh_state) \<noteq> Inr []"
  by (simp add: model_defs demo_defs)




end
